theory Spec2Isabelle
  imports Main
begin

section \<open>Errors\<close>

text \<open>
  Modelled from the spec: the error types \<open>InvalidArgument\<close> and \<open>ObjectExists\<close> of the
  repository's package client, whose declarations are not among the sources. The worker
  builds them as \<open>client.InvalidArgument{}\<close> and
  \<open>client.ObjectExists{Bucket: bucket, Object: object}\<close>; the spec calls them the
  invalid-argument and the already-exists condition.

  The other error values that travel through the pipe and the handle: \<open>PathError\<close> is
  what the operating system answers to a failed open or write, \<open>EOF\<close> and \<open>ErrClosedPipe\<close>
  are the two errors of package io that a pipe produces, and \<open>Iodine e\<close> is the error \<open>e\<close>
  wrapped by \<open>iodine.New\<close>.
\<close>

datatype errno = EEXIST | ENOENT | EACCES | EISDIR | ENOSPC

datatype error =
    InvalidArgument
  | ObjectExists string string
  | PathError errno
  | EOF
  | ErrClosedPipe
  | Iodine error

text \<open>\<open>os.IsExist\<close>: the error reports that a file already exists.\<close>

definition os_IsExist :: "errno \<Rightarrow> bool" where
  "os_IsExist e = (e = EEXIST)"

text \<open>
  \<open>iodine.New(err, nil)\<close>: nil stays nil, an error that is already wrapped is kept (only
  its stack trace grows, which is not modelled), any other error is wrapped.
\<close>

fun iodine_wrap :: "error \<Rightarrow> error" where
  "iodine_wrap (Iodine e) = Iodine e"
| "iodine_wrap e = Iodine e"

definition iodine_New :: "error option \<Rightarrow> error option" where
  "iodine_New err = map_option iodine_wrap err"

section \<open>The completion latch\<close>

text \<open>
  A \<open>sync.WaitGroup\<close> is its counter. \<open>Add\<close> panics when the counter would become negative,
  \<open>Done\<close> is \<open>Add(-1)\<close>, and \<open>Wait\<close> returns only when the counter is zero.
\<close>

datatype panic = NegativeWaitGroupCounter

definition wg_Add :: "int \<Rightarrow> int \<Rightarrow> panic + int" where
  "wg_Add delta v = (if v + delta < 0 then Inl NegativeWaitGroupCounter else Inr (v + delta))"

definition wg_Done :: "int \<Rightarrow> panic + int" where
  "wg_Done v = wg_Add (- 1) v"

definition wg_Wait_returns :: "int \<Rightarrow> bool" where
  "wg_Wait_returns v = (v = 0)"

section \<open>BlockingWriteCloser\<close>

text \<open>
  The handle holds the wait group and the error slot. Its writer \<open>w\<close> is the producer end of
  the pipe, which lives in the state shared by the two goroutines; the functions below take
  what \<open>b.w.Close()\<close> returned as an argument, so that they speak about any writer.
\<close>

record BlockingWriteCloser =
  release :: int
  err :: "error option"

text \<open>
  \<open>NewBlockingWriteCloser\<close>: a fresh wait group (counter 0) after \<open>Add(1)\<close>, which cannot
  panic there, and no error.
\<close>

definition NewBlockingWriteCloser :: BlockingWriteCloser where
  "NewBlockingWriteCloser =
     \<lparr>release = (case wg_Add 1 0 of Inr v \<Rightarrow> v | Inl _ \<Rightarrow> 0), err = None\<rparr>"

text \<open>
  \<open>Release(err)\<close> is two statements: \<open>b.release.Done()\<close>, which may panic, and then the
  store of a non-nil \<open>err\<close> into \<open>b.err\<close>.
\<close>

definition Release_Done :: "BlockingWriteCloser \<Rightarrow> panic + BlockingWriteCloser" where
  "Release_Done b =
     (case wg_Done (release b) of
        Inl p \<Rightarrow> Inl p
      | Inr v \<Rightarrow> Inr (b\<lparr>release := v\<rparr>))"

definition Release_store :: "error option \<Rightarrow> BlockingWriteCloser \<Rightarrow> BlockingWriteCloser" where
  "Release_store e b = (case e of None \<Rightarrow> b | Some x \<Rightarrow> b\<lparr>err := Some x\<rparr>)"

definition Release :: "error option \<Rightarrow> BlockingWriteCloser \<Rightarrow> panic + BlockingWriteCloser" where
  "Release e b =
     (case Release_Done b of
        Inl p \<Rightarrow> Inl p
      | Inr b' \<Rightarrow> Inr (Release_store e b'))"

text \<open>
  \<open>Close()\<close> is two parts around the point where it may block: the first takes the result
  \<open>cerr\<close> of \<open>b.w.Close()\<close> and stores it when it is not nil; the second is
  \<open>b.release.Wait(); return b.err\<close>, which is \<open>None\<close> as long as the wait group blocks.
\<close>

definition Close_begin :: "error option \<Rightarrow> BlockingWriteCloser \<Rightarrow> BlockingWriteCloser" where
  "Close_begin cerr b = (case cerr of None \<Rightarrow> b | Some x \<Rightarrow> b\<lparr>err := Some x\<rparr>)"

definition Close_end :: "BlockingWriteCloser \<Rightarrow> error option option" where
  "Close_end b = (if wg_Wait_returns (release b) then Some (err b) else None)"

text \<open>
  The two orders in which one \<open>Close()\<close> and one \<open>Release(e)\<close> that runs to its end can meet
  on a handle whose writer's \<open>Close\<close> returns \<open>cerr\<close>: \<open>Close\<close> is called first and waits while
  \<open>Release\<close> runs, or \<open>Release\<close> has returned before \<open>Close\<close> is called. The result is the panic
  of \<open>Release\<close>, or what \<open>Close\<close> returns (\<open>None\<close> if it still blocks).
\<close>

definition Close_around_Release ::
  "error option \<Rightarrow> error option \<Rightarrow> BlockingWriteCloser \<Rightarrow> panic + error option option" where
  "Close_around_Release e cerr b =
     (case Release e (Close_begin cerr b) of
        Inl p \<Rightarrow> Inl p
      | Inr b' \<Rightarrow> Inr (Close_end b'))"

definition Close_after_Release ::
  "error option \<Rightarrow> error option \<Rightarrow> BlockingWriteCloser \<Rightarrow> panic + error option option" where
  "Close_after_Release e cerr b =
     (case Release e b of
        Inl p \<Rightarrow> Inl p
      | Inr b' \<Rightarrow> Inr (Close_end (Close_begin cerr b')))"

text \<open>Two calls of \<open>Release\<close> on the same handle, one after the other.\<close>

definition Release_twice ::
  "error option \<Rightarrow> error option \<Rightarrow> BlockingWriteCloser \<Rightarrow> panic + BlockingWriteCloser" where
  "Release_twice e1 e2 b =
     (case Release e1 b of
        Inl p \<Rightarrow> Inl p
      | Inr b' \<Rightarrow> Release e2 b')"

section \<open>The pipe\<close>

text \<open>
  \<open>io.Pipe()\<close> of the standard library: a synchronous pipe without a buffer of its own. Its
  state is the data remaining of the pending write (\<open>None\<close> when no write is pending), the
  error given to writes once the read end is closed, and the error given to reads once the
  write end is closed. A write hands its slice to the pipe and returns when reads have taken
  all of it or when the read end is closed; a read returns when a write is pending or when
  the write end is closed.
\<close>

type_synonym byte = char

record pipe =
  data :: "byte list option"
  rerr :: "error option"
  werr :: "error option"

definition io_Pipe :: pipe where
  "io_Pipe = \<lparr>data = None, rerr = None, werr = None\<rparr>"

text \<open>Closing the read end with \<open>e\<close> (\<open>r.CloseWithError(e)\<close>, \<open>r.Close()\<close> is \<open>e = nil\<close>).\<close>

definition rclose :: "error option \<Rightarrow> pipe \<Rightarrow> pipe" where
  "rclose e p = p\<lparr>rerr := Some (case e of None \<Rightarrow> ErrClosedPipe | Some x \<Rightarrow> x)\<rparr>"

text \<open>Closing the write end with \<open>e\<close>.\<close>

definition wclose :: "error option \<Rightarrow> pipe \<Rightarrow> pipe" where
  "wclose e p = p\<lparr>werr := Some (case e of None \<Rightarrow> EOF | Some x \<Rightarrow> x)\<rparr>"

text \<open>\<open>w.Close()\<close> of the pipe's writer closes the write end and always returns nil.\<close>

definition PipeWriter_Close :: "pipe \<Rightarrow> error option \<times> pipe" where
  "PipeWriter_Close p = (None, wclose None p)"

text \<open>
  A read into a buffer of \<open>n\<close> bytes: \<open>None\<close> while it blocks, otherwise the bytes read, the
  error and the pipe afterwards.
\<close>

definition pipe_read :: "nat \<Rightarrow> pipe \<Rightarrow> ((byte list \<times> error option) \<times> pipe) option" where
  "pipe_read n p =
     (if rerr p \<noteq> None then Some (([], Some ErrClosedPipe), p)
      else case data p of
             Some d \<Rightarrow>
               Some ((take n d, None),
                     p\<lparr>data := (if drop n d = [] then None else Some (drop n d))\<rparr>)
           | None \<Rightarrow>
               (case werr p of
                  Some e \<Rightarrow> Some (([], Some e), p)
                | None \<Rightarrow> None))"

text \<open>
  A write \<open>w.Write(b)\<close> in its two parts: handing over the slice, which fails at once when
  the write end is closed, and waiting until the data is taken or the read end is closed.
  The second part is \<open>None\<close> while the write blocks, otherwise the count, the error and the
  pipe afterwards.
\<close>

definition pipe_write_begin :: "byte list \<Rightarrow> pipe \<Rightarrow> error + pipe" where
  "pipe_write_begin b p =
     (if werr p \<noteq> None then Inl ErrClosedPipe else Inr (p\<lparr>data := Some b\<rparr>))"

definition pipe_write_end :: "byte list \<Rightarrow> pipe \<Rightarrow> ((nat \<times> error option) \<times> pipe) option" where
  "pipe_write_end b p =
     (case data p of
        None \<Rightarrow> Some ((length b, None), p)
      | Some d \<Rightarrow>
          (case rerr p of
             Some e \<Rightarrow> Some ((length b - length d, Some e), p\<lparr>data := None\<rparr>)
           | None \<Rightarrow> None))"

section \<open>The file system\<close>

text \<open>
  The regular files with their contents, and what the operating system answers where it
  refuses: \<open>create_fault fs name\<close> is the error with which opening \<open>name\<close> for creation fails
  (a missing or unwritable directory, a directory of that name), \<open>write_fault fs name\<close> the
  error with which a write to that file fails (a full disk), \<open>None\<close> where it succeeds.
\<close>

record filesystem =
  files :: "string \<rightharpoonup> byte list"
  create_fault :: "string \<Rightarrow> errno option"
  write_fault :: "string \<Rightarrow> errno option"

text \<open>A file system with the files \<open>fl\<close> that refuses nothing.\<close>

definition quiet_fs :: "(string \<rightharpoonup> byte list) \<Rightarrow> filesystem" where
  "quiet_fs fl = \<lparr>files = fl, create_fault = (\<lambda>_. None), write_fault = (\<lambda>_. None)\<rparr>"

text \<open>An empty file system in which every creation fails with \<open>e\<close>.\<close>

definition refusing_fs :: "errno \<Rightarrow> filesystem" where
  "refusing_fs e = \<lparr>files = Map.empty, create_fault = (\<lambda>_. Some e), write_fault = (\<lambda>_. None)\<rparr>"

text \<open>An empty file system in which every write to a file fails with \<open>e\<close>.\<close>

definition full_fs :: "errno \<Rightarrow> filesystem" where
  "full_fs e = \<lparr>files = Map.empty, create_fault = (\<lambda>_. None), write_fault = (\<lambda>_. Some e)\<rparr>"

text \<open>
  \<open>os.Create(name)\<close> opens with \<open>O_RDWR|O_CREATE|O_TRUNC\<close>: it creates the file when there
  is none and truncates it when there is one.
\<close>

definition os_Create :: "string \<Rightarrow> filesystem \<Rightarrow> errno + filesystem" where
  "os_Create name fs =
     (case create_fault fs name of
        Some e \<Rightarrow> Inl e
      | None \<Rightarrow> Inr (fs\<lparr>files := (files fs)(name \<mapsto> [])\<rparr>))"

text \<open>A write to the file opened by \<open>os.Create\<close> appends at the end of what was written.\<close>

definition os_Write :: "string \<Rightarrow> byte list \<Rightarrow> filesystem \<Rightarrow> errno + filesystem" where
  "os_Write name buf fs =
     (case write_fault fs name of
        Some e \<Rightarrow> Inl e
      | None \<Rightarrow>
          Inr (fs\<lparr>files := (files fs)(name \<mapsto>
                 (case files fs name of None \<Rightarrow> [] | Some c \<Rightarrow> c) @ buf)\<rparr>))"

text \<open>
  \<open>filepath.Join(a, b)\<close>: the non-empty elements joined by the separator, then cleaned
  (\<open>filepath.Clean\<close>: no empty and no \<open>.\<close> elements, each inner \<open>..\<close> taken away with the
  element before it, \<open>..\<close> dropped at the root, \<open>.\<close> for the empty path).
\<close>

fun split_sep :: "string \<Rightarrow> string list" where
  "split_sep [] = [[]]"
| "split_sep (c # cs) =
     (if c = CHR ''/'' then [] # split_sep cs
      else (case split_sep cs of
              [] \<Rightarrow> [[c]]
            | x # xs \<Rightarrow> (c # x) # xs))"

fun clean_elems :: "bool \<Rightarrow> string list \<Rightarrow> string list \<Rightarrow> string list" where
  "clean_elems rooted acc [] = rev acc"
| "clean_elems rooted acc (e # es) =
     (if e = [] \<or> e = ''.'' then clean_elems rooted acc es
      else if e = ''..'' then
        (case acc of
           [] \<Rightarrow> if rooted then clean_elems rooted [] es else clean_elems rooted [e] es
         | a # as \<Rightarrow>
             if a = ''..'' then clean_elems rooted (e # acc) es
             else clean_elems rooted as es)
      else clean_elems rooted (e # acc) es)"

fun join_sep :: "string list \<Rightarrow> string" where
  "join_sep [] = []"
| "join_sep [e] = e"
| "join_sep (e # es) = e @ CHR ''/'' # join_sep es"

definition filepath_Clean :: "string \<Rightarrow> string" where
  "filepath_Clean path =
     (let rooted = (case path of [] \<Rightarrow> False | c # _ \<Rightarrow> c = CHR ''/'');
          body = join_sep (clean_elems rooted [] (split_sep path))
      in if rooted then CHR ''/'' # body else if body = [] then ''.'' else body)"

definition filepath_Join :: "string \<Rightarrow> string \<Rightarrow> string" where
  "filepath_Join a b =
     (if a \<noteq> [] then filepath_Clean (a @ CHR ''/'' # b)
      else if b \<noteq> [] then filepath_Clean b
      else [])"

section \<open>The upload worker\<close>

text \<open>
  What \<open>Put\<close> leaves behind when it returns: the variables the goroutine captured, the pipe
  shared by \<open>r\<close> and \<open>w\<close>, the handle, the file system, the point the worker has reached and
  the calls it has made so far on the consumer end and on the handle.
\<close>

datatype event =
    Ev_CloseWithError error
  | Ev_Release "error option"
  | Ev_Close

text \<open>
  The points of the goroutine between two accesses to shared state: its start, the copy
  loop of \<open>io.CopyN\<close> with the open file's name and the bytes still to copy, a failure branch
  before its \<open>r.CloseWithError(err)\<close>, a call of \<open>Release\<close> before its \<open>Done()\<close> and before its
  store, the last line \<open>r.Close()\<close>, the return, and the panic of \<open>Done()\<close>.
\<close>

datatype wpc =
    W_Begin
  | W_CopyN string int
  | W_Fail error
  | W_Release "error option"
  | W_Store "error option"
  | W_Close
  | W_Exit
  | W_Panic panic

record world =
  bucket :: string
  object :: string
  size64 :: int
  rw :: pipe
  blockingWriter :: BlockingWriteCloser
  fsys :: filesystem
  worker :: wpc
  events :: "event list"

text \<open>
  One step of the goroutine, \<open>None\<close> where it blocks or has ended. \<open>W_Begin\<close> runs the two
  checks and \<open>os.Create\<close> and picks the failure branch. \<open>W_CopyN\<close> is one round of the loop of
  \<open>io.CopyN(fs, r, size)\<close>: nothing left to copy is its success; otherwise it reads into a
  buffer of at most 32 KiB and at most the bytes left, an error of the read (the \<open>EOF\<close> of a
  producer that closed early among them) or of the write to the file is its failure. A
  \<open>Release\<close> with an error is followed by \<open>return\<close>, the \<open>Release(nil)\<close> by \<open>r.Close()\<close>.
  In the source: \<open>W_Begin\<close> is lines 19 to 44 without the bodies of the failure branches,
  \<open>W_CopyN\<close> is line 45 with the test of line 46, \<open>W_Fail\<close> is the \<open>r.CloseWithError(err)\<close> of
  a failure branch, \<open>W_Release\<close> and \<open>W_Store\<close> are lines 85 and 86 to 88 inside the call of
  \<open>Release\<close>, \<open>W_Close\<close> is line 53.
\<close>

definition wstep :: "world \<Rightarrow> world option" where
  "wstep s =
    (case worker s of
       W_Begin \<Rightarrow>
         Some
          (if bucket s = [] \<or> object s = [] then
             s\<lparr>worker := W_Fail (iodine_wrap InvalidArgument)\<rparr>
           else
             let objectPath = filepath_Join (bucket s) (object s) in
             if size64 s < 0 then
               s\<lparr>worker := W_Fail (iodine_wrap InvalidArgument)\<rparr>
             else
               (case os_Create objectPath (fsys s) of
                  Inl e \<Rightarrow>
                    if os_IsExist e then
                      s\<lparr>worker := W_Fail (iodine_wrap (ObjectExists (bucket s) (object s)))\<rparr>
                    else
                      s\<lparr>worker := W_Fail (iodine_wrap (PathError e))\<rparr>
                | Inr fs' \<Rightarrow>
                    s\<lparr>fsys := fs', worker := W_CopyN objectPath (size64 s)\<rparr>))
     | W_CopyN name n \<Rightarrow>
         (if n \<le> 0 then Some (s\<lparr>worker := W_Release None\<rparr>)
          else
            (case pipe_read (nat (min 32768 n)) (rw s) of
               None \<Rightarrow> None
             | Some ((buf, er), p') \<Rightarrow>
                 (case er of
                    Some e \<Rightarrow> Some (s\<lparr>rw := p', worker := W_Fail (iodine_wrap e)\<rparr>)
                  | None \<Rightarrow>
                      if buf = [] then Some (s\<lparr>rw := p'\<rparr>)
                      else
                        (case os_Write name buf (fsys s) of
                           Inl e \<Rightarrow>
                             Some (s\<lparr>rw := p', worker := W_Fail (iodine_wrap (PathError e))\<rparr>)
                         | Inr fs' \<Rightarrow>
                             Some (s\<lparr>rw := p', fsys := fs',
                                     worker := W_CopyN name (n - int (length buf))\<rparr>)))))
     | W_Fail e \<Rightarrow>
         Some (s\<lparr>rw := rclose (Some e) (rw s),
                 events := events s @ [Ev_CloseWithError e],
                 worker := W_Release (Some e)\<rparr>)
     | W_Release e \<Rightarrow>
         (case Release_Done (blockingWriter s) of
            Inl p \<Rightarrow>
              Some (s\<lparr>events := events s @ [Ev_Release e], worker := W_Panic p\<rparr>)
          | Inr b \<Rightarrow>
              Some (s\<lparr>blockingWriter := b,
                      events := events s @ [Ev_Release e],
                      worker := W_Store e\<rparr>))
     | W_Store e \<Rightarrow>
         Some (s\<lparr>blockingWriter := Release_store e (blockingWriter s),
                 worker := (case e of None \<Rightarrow> W_Close | Some _ \<Rightarrow> W_Exit)\<rparr>)
     | W_Close \<Rightarrow>
         Some (s\<lparr>rw := rclose None (rw s),
                 events := events s @ [Ev_Close],
                 worker := W_Exit\<rparr>)
     | W_Exit \<Rightarrow> None
     | W_Panic _ \<Rightarrow> None)"

section \<open>Put\<close>

text \<open>
  \<open>Put\<close> makes the pipe and the handle, starts the goroutine and returns the handle with a
  nil error. The digest \<open>md5HexString\<close> is not used. The handle is the \<open>blockingWriter\<close> of
  the world returned, over the producer end of its pipe.
\<close>

definition Put :: "string \<Rightarrow> string \<Rightarrow> string \<Rightarrow> int \<Rightarrow> filesystem \<Rightarrow> world \<times> error option" where
  "Put bucket_name object_name md5HexString size_bytes fs =
     (\<lparr>bucket = bucket_name, object = object_name, size64 = size_bytes,
       rw = io_Pipe, blockingWriter = NewBlockingWriteCloser, fsys = fs,
       worker = W_Begin, events = []\<rparr>,
      None)"

section \<open>The caller\<close>

text \<open>
  The caller writes some slices through the handle, one \<open>Write\<close> after the other whatever
  they return, and then calls \<open>Close\<close>. Its points: before the next call with the slices
  still to write, inside a \<open>Write\<close> that has handed its slice to the pipe, inside \<open>Close\<close> at
  \<open>b.release.Wait()\<close>, and after \<open>Close\<close> with what it returned. \<open>wlog\<close> keeps what the calls
  of \<open>Write\<close> returned.
\<close>

datatype cpc =
    C_Run "byte list list"
  | C_Write "byte list" "byte list list"
  | C_Wait
  | C_Done "error option"

record state =
  caller :: cpc
  wlog :: "(nat \<times> error option) list"
  world :: world

text \<open>\<open>Write\<close> of the handle returns the count of the writer and its error through iodine.\<close>

definition Write_returns :: "nat \<times> error option \<Rightarrow> nat \<times> error option" where
  "Write_returns r = (fst r, iodine_New (snd r))"

definition cstep :: "state \<Rightarrow> state option" where
  "cstep s =
    (let w = world s in
     case caller s of
       C_Run [] \<Rightarrow>
         (case PipeWriter_Close (rw w) of
            (cerr, p') \<Rightarrow>
              Some (s\<lparr>caller := C_Wait,
                      world := w\<lparr>rw := p',
                                 blockingWriter := Close_begin cerr (blockingWriter w)\<rparr>\<rparr>))
     | C_Run (b # bs) \<Rightarrow>
         (case pipe_write_begin b (rw w) of
            Inl e \<Rightarrow>
              Some (s\<lparr>caller := C_Run bs, wlog := wlog s @ [Write_returns (0, Some e)]\<rparr>)
          | Inr p' \<Rightarrow>
              Some (s\<lparr>caller := C_Write b bs, world := w\<lparr>rw := p'\<rparr>\<rparr>))
     | C_Write b bs \<Rightarrow>
         (case pipe_write_end b (rw w) of
            None \<Rightarrow> None
          | Some (r, p') \<Rightarrow>
              Some (s\<lparr>caller := C_Run bs, wlog := wlog s @ [Write_returns r],
                      world := w\<lparr>rw := p'\<rparr>\<rparr>))
     | C_Wait \<Rightarrow>
         (case Close_end (blockingWriter w) of
            None \<Rightarrow> None
          | Some r \<Rightarrow> Some (s\<lparr>caller := C_Done r\<rparr>))
     | C_Done _ \<Rightarrow> None)"

text \<open>The caller with the slices \<open>bs\<close> to write, on the world that \<open>Put\<close> returned.\<close>

definition session :: "byte list list \<Rightarrow> world \<Rightarrow> state" where
  "session bs w = \<lparr>caller = C_Run bs, wlog = [], world = w\<rparr>"

section \<open>Executions\<close>

text \<open>
  The two goroutines interleave: a step of the program is a step of one of them, and a
  panic of the worker ends the program. A schedule names the goroutine that moves at each
  step; \<open>exec\<close> is \<open>None\<close> for a schedule that asks a blocked goroutine to move.
\<close>

datatype thread = Caller | Worker

definition panicked :: "state \<Rightarrow> bool" where
  "panicked s = (case worker (world s) of W_Panic _ \<Rightarrow> True | _ \<Rightarrow> False)"

definition step :: "thread \<Rightarrow> state \<Rightarrow> state option" where
  "step t s =
    (if panicked s then None
     else case t of
            Caller \<Rightarrow> cstep s
          | Worker \<Rightarrow>
              (case wstep (world s) of
                 None \<Rightarrow> None
               | Some w \<Rightarrow> Some (s\<lparr>world := w\<rparr>)))"

fun exec :: "thread list \<Rightarrow> state \<Rightarrow> state option" where
  "exec [] s = Some s"
| "exec (t # ts) s = (case step t s of None \<Rightarrow> None | Some s' \<Rightarrow> exec ts s')"

section \<open>Invariants of the executions\<close>

text \<open>
  The complete sequences of calls that the worker may have made when it returns: the
  consumer end closed with an error and then \<open>Release\<close> with the same error, or \<open>Release(nil)\<close>
  and then the consumer end closed without error.
\<close>

fun signalled_once :: "event list \<Rightarrow> bool" where
  "signalled_once [Ev_CloseWithError e, Ev_Release (Some e')] = (e = e')"
| "signalled_once [Ev_Release None, Ev_Close] = True"
| "signalled_once _ = False"

text \<open>The calls made so far, at each point of the worker.\<close>

definition events_ok :: "wpc \<Rightarrow> event list \<Rightarrow> bool" where
  "events_ok pc evs =
    (case pc of
       W_Begin \<Rightarrow> evs = []
     | W_CopyN _ _ \<Rightarrow> evs = []
     | W_Fail _ \<Rightarrow> evs = []
     | W_Release None \<Rightarrow> evs = []
     | W_Release (Some e) \<Rightarrow> evs = [Ev_CloseWithError e]
     | W_Store None \<Rightarrow> evs = [Ev_Release None]
     | W_Store (Some e) \<Rightarrow> evs = [Ev_CloseWithError e, Ev_Release (Some e)]
     | W_Close \<Rightarrow> evs = [Ev_Release None]
     | W_Exit \<Rightarrow> signalled_once evs
     | W_Panic _ \<Rightarrow> False)"

text \<open>The points of the worker after its \<open>Done()\<close>, and those after it closed the consumer end.\<close>

definition released :: "wpc \<Rightarrow> bool" where
  "released pc = (case pc of W_Store _ \<Rightarrow> True | W_Close \<Rightarrow> True | W_Exit \<Rightarrow> True | _ \<Rightarrow> False)"

definition reader_closed :: "wpc \<Rightarrow> bool" where
  "reader_closed pc =
    (case pc of W_Release e \<Rightarrow> e \<noteq> None | W_Store e \<Rightarrow> e \<noteq> None | W_Exit \<Rightarrow> True | _ \<Rightarrow> False)"

text \<open>The points of the caller after it closed the producer end, and those inside a \<open>Write\<close>.\<close>

definition writer_closed :: "cpc \<Rightarrow> bool" where
  "writer_closed pc = (case pc of C_Wait \<Rightarrow> True | C_Done _ \<Rightarrow> True | _ \<Rightarrow> False)"

definition in_write :: "cpc \<Rightarrow> bool" where
  "in_write pc = (case pc of C_Write _ _ \<Rightarrow> True | _ \<Rightarrow> False)"

text \<open>
  The error slot of the handle is empty until the store of \<open>Release\<close>, and once the worker
  has returned it holds what the worker passed to \<open>Release\<close>. What \<open>Close\<close> returned is nil
  or what the worker passed to \<open>Release\<close>.
\<close>

definition slot_events_ok :: "wpc \<Rightarrow> event list \<Rightarrow> error option \<Rightarrow> bool" where
  "slot_events_ok pc evs r =
    (case pc of
       W_Exit \<Rightarrow> Ev_Release r \<in> set evs
     | W_Panic _ \<Rightarrow> True
     | _ \<Rightarrow> r = None)"

definition close_result_ok :: "cpc \<Rightarrow> event list \<Rightarrow> bool" where
  "close_result_ok cp evs =
    (case cp of C_Done r \<Rightarrow> r = None \<or> Ev_Release r \<in> set evs | _ \<Rightarrow> True)"

text \<open>
  The error with which the consumer end is closed, at each point of the worker: none before
  the worker closes it, the error of the failure branch from \<open>r.CloseWithError(err)\<close> on,
  and after the return that error or, after the \<open>r.Close()\<close> of the success,
  \<open>ErrClosedPipe\<close>.
\<close>

definition rerr_ok :: "wpc \<Rightarrow> event list \<Rightarrow> error option \<Rightarrow> bool" where
  "rerr_ok pc evs r =
    (case pc of
       W_Release e \<Rightarrow> r = e
     | W_Store e \<Rightarrow> r = e
     | W_Exit \<Rightarrow>
         r = Some (case evs of Ev_CloseWithError e # _ \<Rightarrow> e | _ \<Rightarrow> ErrClosedPipe)
     | W_Panic _ \<Rightarrow> True
     | _ \<Rightarrow> r = None)"

text \<open>
  What holds in every state of every execution: the latch, the two ends of the pipe, the
  error slot and the calls made agree with the points the two goroutines have reached.
\<close>

definition coherent :: "state \<Rightarrow> bool" where
  "coherent s =
    (release (blockingWriter (world s)) = (if released (worker (world s)) then 0 else 1)
     \<and> (rerr (rw (world s)) \<noteq> None) = reader_closed (worker (world s))
     \<and> rerr_ok (worker (world s)) (events (world s)) (rerr (rw (world s)))
     \<and> werr (rw (world s)) = (if writer_closed (caller s) then Some EOF else None)
     \<and> (in_write (caller s) \<or> data (rw (world s)) = None)
     \<and> events_ok (worker (world s)) (events (world s))
     \<and> slot_events_ok (worker (world s)) (events (world s)) (err (blockingWriter (world s)))
     \<and> close_result_ok (caller s) (events (world s)))"

text \<open>
  A bound on the steps that are left: every step of either goroutine makes it smaller.
\<close>

definition caller_fuel :: "cpc \<Rightarrow> nat" where
  "caller_fuel pc =
    (case pc of
       C_Run bs \<Rightarrow> 2 * length bs + 2
     | C_Write _ bs \<Rightarrow> 2 * length bs + 3
     | C_Wait \<Rightarrow> 1
     | C_Done _ \<Rightarrow> 0)"

definition worker_fuel :: "wpc \<Rightarrow> int \<Rightarrow> nat" where
  "worker_fuel pc sz =
    (case pc of
       W_Begin \<Rightarrow> 8 + nat sz
     | W_CopyN _ n \<Rightarrow> 7 + nat n
     | W_Fail _ \<Rightarrow> 5
     | W_Release _ \<Rightarrow> 4
     | W_Store _ \<Rightarrow> 3
     | W_Close \<Rightarrow> 2
     | W_Exit \<Rightarrow> 0
     | W_Panic _ \<Rightarrow> 0)"

definition fuel :: "state \<Rightarrow> nat" where
  "fuel s =
     2 * caller_fuel (caller s)
     + (case data (rw (world s)) of None \<Rightarrow> 0 | Some _ \<Rightarrow> 1)
     + worker_fuel (worker (world s)) (size64 (world s))"

text \<open>The bytes that the caller has not yet handed to the worker.\<close>

definition pending :: "state \<Rightarrow> byte list" where
  "pending s =
    (case caller s of
       C_Run bs \<Rightarrow> concat bs
     | C_Write _ bs \<Rightarrow> (case data (rw (world s)) of None \<Rightarrow> [] | Some d \<Rightarrow> d) @ concat bs
     | C_Wait \<Rightarrow> []
     | C_Done _ \<Rightarrow> [])"

text \<open>
  How the worker ends, as a function of the request, of the file system that \<open>Put\<close> was
  given and of the bytes \<open>content\<close> that the caller writes before it closes: the error that
  the worker meets (\<open>None\<close> for the success), and the files afterwards. The cases are the
  exit paths of the worker in their order: an empty name, a negative size, a refused
  creation (reported as \<open>ObjectExists\<close> when \<open>os.IsExist\<close> holds of it), and then the copy,
  which succeeds at once for size 0, ends with \<open>EOF\<close> when the producer closes before \<open>sz\<close>
  bytes have come, and fails with the error of the first write to the file when the file
  system refuses it. A file that could be created holds nothing if writes are refused,
  and else the first \<open>sz\<close> bytes of \<open>content\<close>.
\<close>

definition expected_error ::
  "string \<Rightarrow> string \<Rightarrow> int \<Rightarrow> filesystem \<Rightarrow> byte list \<Rightarrow> error option" where
  "expected_error b ob sz fs content =
    (if b = [] \<or> ob = [] then Some (Iodine InvalidArgument)
     else if sz < 0 then Some (Iodine InvalidArgument)
     else
       (case create_fault fs (filepath_Join b ob) of
          Some x \<Rightarrow> Some (Iodine (if os_IsExist x then ObjectExists b ob else PathError x))
        | None \<Rightarrow>
            if sz = 0 then None
            else if content = [] then Some (Iodine EOF)
            else
              (case write_fault fs (filepath_Join b ob) of
                 Some x \<Rightarrow> Some (Iodine (PathError x))
               | None \<Rightarrow> if int (length content) < sz then Some (Iodine EOF) else None)))"

definition created :: "string \<Rightarrow> string \<Rightarrow> int \<Rightarrow> filesystem \<Rightarrow> bool" where
  "created b ob sz fs =
    (b \<noteq> [] \<and> ob \<noteq> [] \<and> 0 \<le> sz \<and> create_fault fs (filepath_Join b ob) = None)"

definition expected_files ::
  "string \<Rightarrow> string \<Rightarrow> int \<Rightarrow> filesystem \<Rightarrow> byte list \<Rightarrow> (string \<rightharpoonup> byte list)" where
  "expected_files b ob sz fs content =
    (if created b ob sz fs then
       (files fs)(filepath_Join b ob \<mapsto>
          (case write_fault fs (filepath_Join b ob) of
             Some _ \<Rightarrow> []
           | None \<Rightarrow> take (nat sz) content))
     else files fs)"

text \<open>
  What holds in every state of every session, \<open>content\<close> being all the bytes of the slices
  that the caller writes. \<open>copying\<close> is the state of the copy loop: the file holds what was
  copied, which with the pending bytes makes up \<open>content\<close>; \<open>n\<close> is what is left to copy of
  \<open>sz\<close>; nothing is in the file when writes are refused. \<open>track_pc\<close> says at each point of the
  worker where the request stands: before the worker's first step nothing has changed; a
  failure branch, a call of \<open>Release\<close> and the slot after the return carry the expected
  error, with the expected files. \<open>track_done\<close> is about \<open>Close\<close>: what it returned is nil or
  the expected error, and it returned after the \<open>Done()\<close> of the worker.
\<close>

definition copying ::
  "string \<Rightarrow> string \<Rightarrow> int \<Rightarrow> filesystem \<Rightarrow> byte list \<Rightarrow>
   string \<Rightarrow> int \<Rightarrow> (string \<rightharpoonup> byte list) \<Rightarrow> byte list \<Rightarrow> bool" where
  "copying b ob sz fs content nm n fl pend =
    (created b ob sz fs \<and> nm = filepath_Join b ob \<and> 0 \<le> n
     \<and> (case fl (filepath_Join b ob) of
           None \<Rightarrow> False
         | Some c \<Rightarrow>
             fl = (files fs)(filepath_Join b ob \<mapsto> c)
             \<and> c @ pend = content \<and> n = sz - int (length c)
             \<and> (write_fault fs (filepath_Join b ob) = None \<or> c = [])))"

definition track_pc ::
  "string \<Rightarrow> string \<Rightarrow> int \<Rightarrow> filesystem \<Rightarrow> byte list \<Rightarrow>
   wpc \<Rightarrow> (string \<rightharpoonup> byte list) \<Rightarrow> byte list \<Rightarrow> error option \<Rightarrow> bool" where
  "track_pc b ob sz fs content pc fl pend slot =
    (case pc of
       W_Begin \<Rightarrow> fl = files fs \<and> pend = content
     | W_CopyN nm n \<Rightarrow> copying b ob sz fs content nm n fl pend
     | W_Fail e \<Rightarrow>
         Some e = expected_error b ob sz fs content \<and> fl = expected_files b ob sz fs content
     | W_Release e \<Rightarrow>
         e = expected_error b ob sz fs content \<and> fl = expected_files b ob sz fs content
     | W_Store e \<Rightarrow>
         e = expected_error b ob sz fs content \<and> fl = expected_files b ob sz fs content
     | W_Close \<Rightarrow>
         expected_error b ob sz fs content = None \<and> fl = expected_files b ob sz fs content
     | W_Exit \<Rightarrow>
         slot = expected_error b ob sz fs content \<and> fl = expected_files b ob sz fs content
     | W_Panic _ \<Rightarrow> False)"

definition track_done :: "error option \<Rightarrow> cpc \<Rightarrow> wpc \<Rightarrow> bool" where
  "track_done ex cp pc =
    (case cp of C_Done r \<Rightarrow> (r = None \<or> r = ex) \<and> released pc | _ \<Rightarrow> True)"

definition tracking ::
  "string \<Rightarrow> string \<Rightarrow> int \<Rightarrow> filesystem \<Rightarrow> byte list \<Rightarrow> state \<Rightarrow> bool" where
  "tracking b ob sz fs content s =
    (bucket (world s) = b \<and> object (world s) = ob \<and> size64 (world s) = sz
     \<and> create_fault (fsys (world s)) = create_fault fs
     \<and> write_fault (fsys (world s)) = write_fault fs
     \<and> track_pc b ob sz fs content (worker (world s)) (files (fsys (world s))) (pending s)
          (err (blockingWriter (world s)))
     \<and> track_done (expected_error b ob sz fs content) (caller s) (worker (world s)))"

text \<open>
  The two complete behaviours of the worker at its return. A failure branch with error \<open>e\<close>:
  the worker called \<open>r.CloseWithError(e)\<close> and then \<open>Release(e)\<close>, nothing else, and the
  consumer end is closed with \<open>e\<close>. The success: the worker called \<open>Release(nil)\<close> and then
  \<open>r.Close()\<close>, nothing else, and the consumer end is closed without an error of the
  worker (writers get \<open>ErrClosedPipe\<close>).
\<close>

definition failed_with :: "error \<Rightarrow> state \<Rightarrow> bool" where
  "failed_with e s =
    (events (world s) = [Ev_CloseWithError e, Ev_Release (Some e)]
     \<and> rerr (rw (world s)) = Some e)"

definition succeeded :: "state \<Rightarrow> bool" where
  "succeeded s =
    (events (world s) = [Ev_Release None, Ev_Close]
     \<and> rerr (rw (world s)) = Some ErrClosedPipe)"

text \<open>
  The bytes that the worker reads from the consumer end. \<open>worker_reads\<close> is what the next
  step of the worker gets from the pipe: the buffer that the read of \<open>io.CopyN\<close> returns when
  the worker is in its copy loop, nothing at any other point. \<open>taken_by\<close> is all that the
  worker has read in the course of a schedule.
\<close>

definition worker_reads :: "world \<Rightarrow> byte list" where
  "worker_reads w =
    (case worker w of
       W_CopyN name n \<Rightarrow>
         (if n \<le> 0 then []
          else case pipe_read (nat (min 32768 n)) (rw w) of
                 None \<Rightarrow> []
               | Some ((buf, er), p') \<Rightarrow> buf)
     | _ \<Rightarrow> [])"

fun taken_by :: "thread list \<Rightarrow> state \<Rightarrow> byte list" where
  "taken_by [] s = []"
| "taken_by (t # ts) s =
    (case step t s of
       None \<Rightarrow> []
     | Some s' \<Rightarrow>
         (case t of Worker \<Rightarrow> worker_reads (world s) | Caller \<Rightarrow> []) @ taken_by ts s')"

text \<open>
  The bytes that the calls of \<open>Write\<close> which have returned report as written: of each
  slice, as many bytes as the count that its \<open>Write\<close> returned.
\<close>

fun reported :: "byte list list \<Rightarrow> (nat \<times> error option) list \<Rightarrow> byte list" where
  "reported (b # bs) (r # rs) = take (fst r) b @ reported bs rs"
| "reported _ _ = []"

text \<open>
  The bytes of the \<open>Write\<close> in progress that the worker has read already: the slice without
  the data that is still pending in the pipe.
\<close>

definition in_flight_of :: "cpc \<Rightarrow> byte list option \<Rightarrow> byte list" where
  "in_flight_of cp d =
    (case cp of
       C_Write x _ \<Rightarrow> (case d of None \<Rightarrow> x | Some r \<Rightarrow> take (length x - length r) x)
     | _ \<Rightarrow> [])"

definition in_flight :: "state \<Rightarrow> byte list" where
  "in_flight s = in_flight_of (caller s) (data (rw (world s)))"

text \<open>The slices that the caller has not handed to a \<open>Write\<close> that returned.\<close>

definition remaining :: "cpc \<Rightarrow> byte list list" where
  "remaining cp = (case cp of C_Run rest \<Rightarrow> rest | C_Write x rest \<Rightarrow> x # rest | _ \<Rightarrow> [])"

text \<open>The data pending in the pipe is the rest of the slice of the \<open>Write\<close> in progress.\<close>

definition whole_slice :: "cpc \<Rightarrow> byte list option \<Rightarrow> bool" where
  "whole_slice cp d =
    (case cp of
       C_Write x _ \<Rightarrow> in_flight_of cp d @ (case d of None \<Rightarrow> [] | Some r \<Rightarrow> r) = x
     | _ \<Rightarrow> True)"

text \<open>A \<open>Write\<close> that returned without error returned the length of its slice.\<close>

fun complete :: "byte list list \<Rightarrow> (nat \<times> error option) list \<Rightarrow> bool" where
  "complete (b # bs) (r # rs) = ((snd r = None \<longrightarrow> fst r = length b) \<and> complete bs rs)"
| "complete _ _ = True"

definition rendezvous :: "byte list list \<Rightarrow> byte list \<Rightarrow> state \<Rightarrow> bool" where
  "rendezvous bs acc s =
    (length (wlog s) \<le> length bs
     \<and> drop (length (wlog s)) bs = remaining (caller s)
     \<and> acc = reported bs (wlog s) @ in_flight s
     \<and> whole_slice (caller s) (data (rw (world s)))
     \<and> complete bs (wlog s))"

text \<open>
  While the worker does not get to its copy loop, no \<open>Write\<close> gets rid of a byte: every
  \<open>Write\<close> that has returned reported no byte and the error \<open>e\<close>, the pipe holds the whole
  slice of the \<open>Write\<close> in progress, and the consumer end is open or closed with \<open>e\<close>.
\<close>

definition whole_pending :: "cpc \<Rightarrow> byte list option \<Rightarrow> bool" where
  "whole_pending cp d = (case cp of C_Write x _ \<Rightarrow> d = Some x | _ \<Rightarrow> True)"

definition refusing :: "error \<Rightarrow> state \<Rightarrow> bool" where
  "refusing e s =
    ((\<forall>r \<in> set (wlog s). r = (0, Some e))
     \<and> whole_pending (caller s) (data (rw (world s)))
     \<and> (rerr (rw (world s)) = None \<or> rerr (rw (world s)) = Some e))"

section \<open>Close and Release on the handle\<close>

lemma New_release: "release NewBlockingWriteCloser = 1"
  by (simp add: NewBlockingWriteCloser_def wg_Add_def)

lemma Release_released:
  "release b = 1 \<Longrightarrow> Release e b = Inr (Release_store e (b\<lparr>release := 0\<rparr>))"
  by (simp add: Release_def Release_Done_def wg_Done_def wg_Add_def)

lemma Release_again:
  "release b = 0 \<Longrightarrow> Release e b = Inl NegativeWaitGroupCounter"
  by (simp add: Release_def Release_Done_def wg_Done_def wg_Add_def)

lemma release_Release_store: "release (Release_store e b) = release b"
  by (cases e) (simp_all add: Release_store_def)

lemma release_Close_begin: "release (Close_begin cerr b) = release b"
  by (cases cerr) (simp_all add: Close_begin_def)

text \<open>
  C3. The first \<open>Release\<close> on a handle made by \<open>NewBlockingWriteCloser\<close> does not panic,
  whatever error it passes. A second \<open>Release\<close> on the same handle panics (the negative
  counter of the wait group), whatever the two errors are, and also when \<open>Close\<close> has been
  called in between; the panic is not an error value that \<open>Release\<close> returns.
\<close>

theorem Release_twice_panics:
  "Release e1 NewBlockingWriteCloser
     = Inr (Release_store e1 (NewBlockingWriteCloser\<lparr>release := 0\<rparr>))
   \<and> Release_twice e1 e2 NewBlockingWriteCloser = Inl NegativeWaitGroupCounter
   \<and> Release e2 (Close_begin cerr (Release_store e1 (NewBlockingWriteCloser\<lparr>release := 0\<rparr>)))
       = Inl NegativeWaitGroupCounter"
proof -
  have first: "Release e1 NewBlockingWriteCloser
      = Inr (Release_store e1 (NewBlockingWriteCloser\<lparr>release := 0\<rparr>))"
    by (rule Release_released) (rule New_release)
  have "release (Release_store e1 (NewBlockingWriteCloser\<lparr>release := 0\<rparr>)) = 0"
    by (simp add: release_Release_store)
  then have second: "Release e2 (Release_store e1 (NewBlockingWriteCloser\<lparr>release := 0\<rparr>))
      = Inl NegativeWaitGroupCounter"
    and third: "Release e2 (Close_begin cerr (Release_store e1 (NewBlockingWriteCloser\<lparr>release := 0\<rparr>)))
      = Inl NegativeWaitGroupCounter"
    by (simp_all add: Release_again release_Close_begin)
  from first second have "Release_twice e1 e2 NewBlockingWriteCloser = Inl NegativeWaitGroupCounter"
    by (simp add: Release_twice_def)
  with first third show ?thesis by simp
qed

theorem Release_twice_panics_witness:
  "Release (Some (Iodine InvalidArgument)) NewBlockingWriteCloser
     = Inr \<lparr>release = 0, err = Some (Iodine InvalidArgument)\<rparr>
   \<and> Release_twice (Some (Iodine InvalidArgument)) None NewBlockingWriteCloser
     = Inl NegativeWaitGroupCounter"
  using Release_twice_panics [of "Some (Iodine InvalidArgument)" None None]
  by (simp add: Release_store_def NewBlockingWriteCloser_def wg_Add_def)

text \<open>
  C2, as the claim states it, fails: when \<open>Release\<close> has stored the worker's error before
  \<open>Close\<close> is called and the writer's \<open>Close\<close> fails too, \<open>Close\<close> returns the error of the
  writer, not the worker's.
\<close>

theorem Close_prefers_close_error_after_Release:
  "Close_after_Release (Some (Iodine InvalidArgument)) (Some (PathError ENOSPC))
     NewBlockingWriteCloser = Inr (Some (Some (PathError ENOSPC)))"
  by (simp add: Close_after_Release_def Release_def Release_Done_def Release_store_def
      Close_begin_def Close_end_def wg_Done_def wg_Add_def wg_Wait_returns_def
      NewBlockingWriteCloser_def)

text \<open>
  C2, amended. \<open>Close\<close> first closes the writer and keeps the error of that close when it is
  not nil; it then blocks as long as \<open>Release\<close> has not been called. What it returns after a
  \<open>Release(e)\<close> that ran to its end is the error stored last: when \<open>Close\<close> was called first
  and \<open>Release\<close> ran while it waited, the worker's error \<open>e\<close> if it is not nil and else the
  error of the close; when \<open>Release\<close> had returned before \<open>Close\<close> was called, the error of
  the close if it is not nil and else \<open>e\<close>. A nil \<open>e\<close> never overwrites the error of the close.
\<close>

theorem Close_returns_last_stored_error:
  "Close_end (Close_begin cerr NewBlockingWriteCloser) = None
   \<and> Close_around_Release e cerr NewBlockingWriteCloser
       = Inr (Some (case e of Some x \<Rightarrow> Some x | None \<Rightarrow> cerr))
   \<and> Close_after_Release e cerr NewBlockingWriteCloser
       = Inr (Some (case cerr of Some x \<Rightarrow> Some x | None \<Rightarrow> e))
   \<and> Close_around_Release None cerr NewBlockingWriteCloser = Inr (Some cerr)"
  by (cases e; cases cerr)
     (simp_all add: Close_around_Release_def Close_after_Release_def Release_def Release_Done_def
        Release_store_def Close_begin_def Close_end_def wg_Done_def wg_Add_def wg_Wait_returns_def
        NewBlockingWriteCloser_def)

theorem Close_returns_last_stored_error_witness:
  "Close_around_Release (Some (Iodine EOF)) (Some (PathError ENOSPC)) NewBlockingWriteCloser
     = Inr (Some (Some (Iodine EOF)))
   \<and> Close_after_Release (Some (Iodine EOF)) None NewBlockingWriteCloser
     = Inr (Some (Some (Iodine EOF)))
   \<and> Close_around_Release None (Some (PathError ENOSPC)) NewBlockingWriteCloser
     = Inr (Some (Some (PathError ENOSPC)))"
  using Close_returns_last_stored_error [of "Some (PathError ENOSPC)" "Some (Iodine EOF)"]
    Close_returns_last_stored_error [of None "Some (Iodine EOF)"]
    Close_returns_last_stored_error [of "Some (PathError ENOSPC)" None]
  by simp

section \<open>What Put returns\<close>

text \<open>
  For every request, valid or not, \<open>Put\<close> returns a nil error and a live handle: its latch
  is pending, its error slot and its pipe are untouched, the file system is as it was, and
  the worker has not run yet. The checks of the request are the worker's first step.
\<close>

lemma Put_returns_nil:
  "snd (Put b ob m sz fs) = None
   \<and> blockingWriter (fst (Put b ob m sz fs)) = \<lparr>release = 1, err = None\<rparr>
   \<and> rw (fst (Put b ob m sz fs)) = \<lparr>data = None, rerr = None, werr = None\<rparr>
   \<and> fsys (fst (Put b ob m sz fs)) = fs
   \<and> worker (fst (Put b ob m sz fs)) = W_Begin
   \<and> events (fst (Put b ob m sz fs)) = []"
  by (simp add: Put_def NewBlockingWriteCloser_def wg_Add_def io_Pipe_def)

section \<open>Steps of the two goroutines\<close>

lemma cstepE [consumes 1, case_names Close WriteFail WriteBegin WriteEnd WriteAbort Wait]:
  assumes "cstep s = Some s'"
  obtains
    (Close) "caller s = C_Run []"
      "s' = s\<lparr>caller := C_Wait, world := (world s)\<lparr>rw := (rw (world s))\<lparr>werr := Some EOF\<rparr>\<rparr>\<rparr>"
  | (WriteFail) b bs where "caller s = C_Run (b # bs)" "werr (rw (world s)) \<noteq> None"
      "s' = s\<lparr>caller := C_Run bs, wlog := wlog s @ [(0, Some (Iodine ErrClosedPipe))]\<rparr>"
  | (WriteBegin) b bs where "caller s = C_Run (b # bs)" "werr (rw (world s)) = None"
      "s' = s\<lparr>caller := C_Write b bs, world := (world s)\<lparr>rw := (rw (world s))\<lparr>data := Some b\<rparr>\<rparr>\<rparr>"
  | (WriteEnd) b bs where "caller s = C_Write b bs" "data (rw (world s)) = None"
      "s' = s\<lparr>caller := C_Run bs, wlog := wlog s @ [(length b, None)]\<rparr>"
  | (WriteAbort) b bs d e where "caller s = C_Write b bs" "data (rw (world s)) = Some d"
      "rerr (rw (world s)) = Some e"
      "s' = s\<lparr>caller := C_Run bs, wlog := wlog s @ [(length b - length d, Some (iodine_wrap e))],
             world := (world s)\<lparr>rw := (rw (world s))\<lparr>data := None\<rparr>\<rparr>\<rparr>"
  | (Wait) "caller s = C_Wait" "release (blockingWriter (world s)) = 0"
      "s' = s\<lparr>caller := C_Done (err (blockingWriter (world s)))\<rparr>"
proof (cases "caller s")
  case (C_Run bs)
  show ?thesis
  proof (cases bs)
    case Nil
    with C_Run assms Close show ?thesis
      by (auto simp: cstep_def Let_def PipeWriter_Close_def wclose_def Close_begin_def)
  next
    case (Cons b bs')
    with C_Run assms WriteFail[of b bs'] WriteBegin[of b bs'] show ?thesis
      by (auto simp: cstep_def Let_def pipe_write_begin_def Write_returns_def iodine_New_def split: if_splits)
  qed
next
  case (C_Write b bs)
  with assms WriteEnd[of b bs] WriteAbort[of b bs] show ?thesis
    by (auto simp: cstep_def Let_def pipe_write_end_def Write_returns_def iodine_New_def split: option.splits)
next
  case C_Wait
  with assms Wait show ?thesis
    by (auto simp: cstep_def Let_def Close_end_def wg_Wait_returns_def split: if_splits)
next
  case (C_Done r)
  with assms show ?thesis by (simp add: cstep_def Let_def)
qed

lemma wstepE [consumes 1, case_names BadName BadSize Exists CreateFail Create CopyDone
    ReadClosed ReadEOF ReadEmpty WriteFault Copy Fail Done Panic Store CloseR]:
  assumes "wstep w = Some w'"
  obtains
    (BadName) "worker w = W_Begin" "bucket w = [] \<or> object w = []"
      "w' = w\<lparr>worker := W_Fail (Iodine InvalidArgument)\<rparr>"
  | (BadSize) "worker w = W_Begin" "bucket w \<noteq> []" "object w \<noteq> []" "size64 w < 0"
      "w' = w\<lparr>worker := W_Fail (Iodine InvalidArgument)\<rparr>"
  | (Exists) e where "worker w = W_Begin" "bucket w \<noteq> []" "object w \<noteq> []" "0 \<le> size64 w"
      "create_fault (fsys w) (filepath_Join (bucket w) (object w)) = Some e" "os_IsExist e"
      "w' = w\<lparr>worker := W_Fail (Iodine (ObjectExists (bucket w) (object w)))\<rparr>"
  | (CreateFail) e where "worker w = W_Begin" "bucket w \<noteq> []" "object w \<noteq> []" "0 \<le> size64 w"
      "create_fault (fsys w) (filepath_Join (bucket w) (object w)) = Some e" "\<not> os_IsExist e"
      "w' = w\<lparr>worker := W_Fail (Iodine (PathError e))\<rparr>"
  | (Create) "worker w = W_Begin" "bucket w \<noteq> []" "object w \<noteq> []" "0 \<le> size64 w"
      "create_fault (fsys w) (filepath_Join (bucket w) (object w)) = None"
      "w' = w\<lparr>fsys := (fsys w)\<lparr>files := (files (fsys w))(filepath_Join (bucket w) (object w) \<mapsto> [])\<rparr>,
              worker := W_CopyN (filepath_Join (bucket w) (object w)) (size64 w)\<rparr>"
  | (CopyDone) name n where "worker w = W_CopyN name n" "n \<le> 0"
      "w' = w\<lparr>worker := W_Release None\<rparr>"
  | (ReadClosed) name n where "worker w = W_CopyN name n" "0 < n" "rerr (rw w) \<noteq> None"
      "w' = w\<lparr>worker := W_Fail (Iodine ErrClosedPipe)\<rparr>"
  | (ReadEOF) name n e where "worker w = W_CopyN name n" "0 < n" "rerr (rw w) = None"
      "data (rw w) = None" "werr (rw w) = Some e"
      "w' = w\<lparr>worker := W_Fail (iodine_wrap e)\<rparr>"
  | (ReadEmpty) name n where "worker w = W_CopyN name n" "0 < n" "rerr (rw w) = None"
      "data (rw w) = Some []"
      "w' = w\<lparr>rw := (rw w)\<lparr>data := None\<rparr>\<rparr>"
  | (WriteFault) name n d e where "worker w = W_CopyN name n" "0 < n" "rerr (rw w) = None"
      "data (rw w) = Some d" "d \<noteq> []" "write_fault (fsys w) name = Some e"
      "w' = w\<lparr>rw := (rw w)\<lparr>data := (if drop (nat (min 32768 n)) d = [] then None
                                        else Some (drop (nat (min 32768 n)) d))\<rparr>,
              worker := W_Fail (Iodine (PathError e))\<rparr>"
  | (Copy) name n d where "worker w = W_CopyN name n" "0 < n" "rerr (rw w) = None"
      "data (rw w) = Some d" "d \<noteq> []" "write_fault (fsys w) name = None"
      "w' = w\<lparr>rw := (rw w)\<lparr>data := (if drop (nat (min 32768 n)) d = [] then None
                                        else Some (drop (nat (min 32768 n)) d))\<rparr>,
              fsys := (fsys w)\<lparr>files := (files (fsys w))(name \<mapsto>
                         (case files (fsys w) name of None \<Rightarrow> [] | Some c \<Rightarrow> c)
                          @ take (nat (min 32768 n)) d)\<rparr>,
              worker := W_CopyN name (n - int (length (take (nat (min 32768 n)) d)))\<rparr>"
  | (Fail) e where "worker w = W_Fail e"
      "w' = w\<lparr>rw := (rw w)\<lparr>rerr := Some e\<rparr>, events := events w @ [Ev_CloseWithError e],
              worker := W_Release (Some e)\<rparr>"
  | (Done) e where "worker w = W_Release e" "1 \<le> release (blockingWriter w)"
      "w' = w\<lparr>blockingWriter := (blockingWriter w)\<lparr>release := release (blockingWriter w) - 1\<rparr>,
              events := events w @ [Ev_Release e], worker := W_Store e\<rparr>"
  | (Panic) e where "worker w = W_Release e" "release (blockingWriter w) < 1"
      "w' = w\<lparr>events := events w @ [Ev_Release e], worker := W_Panic NegativeWaitGroupCounter\<rparr>"
  | (Store) e where "worker w = W_Store e"
      "w' = w\<lparr>blockingWriter := Release_store e (blockingWriter w),
              worker := (case e of None \<Rightarrow> W_Close | Some _ \<Rightarrow> W_Exit)\<rparr>"
  | (CloseR) "worker w = W_Close"
      "w' = w\<lparr>rw := (rw w)\<lparr>rerr := Some ErrClosedPipe\<rparr>, events := events w @ [Ev_Close],
              worker := W_Exit\<rparr>"
proof (cases "worker w")
  case W_Begin
  with assms BadName BadSize Exists CreateFail Create show ?thesis
    by (auto simp: wstep_def Let_def os_Create_def split: if_splits option.splits)
next
  case (W_CopyN name n)
  show ?thesis
  proof (cases "n \<le> 0")
    case True
    with W_CopyN assms CopyDone show ?thesis by (auto simp: wstep_def)
  next
    case False
    show ?thesis
    proof (cases "rerr (rw w)")
      case (Some e)
      with False W_CopyN assms ReadClosed[of name n] show ?thesis
        by (auto simp: wstep_def pipe_read_def)
    next
      case None
      show ?thesis
      proof (cases "data (rw w)")
        case dn: None
        with None False W_CopyN assms ReadEOF[of name n] show ?thesis
          by (auto simp: wstep_def pipe_read_def split: option.splits)
      next
        case (Some d)
        show ?thesis
        proof (cases "d = []")
          case True
          with Some None False W_CopyN assms ReadEmpty[of name n] show ?thesis
            by (auto simp: wstep_def pipe_read_def)
        next
          case dne: False
          with False have "take (nat (min 32768 n)) d \<noteq> []" by (cases d) auto
          with dne Some None False W_CopyN assms WriteFault[of name n d] Copy[of name n d] show ?thesis
            by (auto simp: wstep_def pipe_read_def os_Write_def split: option.splits)
        qed
      qed
    qed
  qed
next
  case (W_Fail e)
  with assms Fail show ?thesis by (auto simp: wstep_def rclose_def)
next
  case (W_Release e)
  with assms Done[of e] Panic[of e] show ?thesis
    by (auto simp: wstep_def Release_Done_def wg_Done_def wg_Add_def split: if_splits)
next
  case (W_Store e)
  with assms Store show ?thesis by (auto simp: wstep_def)
next
  case W_Close
  with assms CloseR show ?thesis by (auto simp: wstep_def rclose_def)
next
  case W_Exit
  with assms show ?thesis by (simp add: wstep_def)
next
  case (W_Panic p)
  with assms show ?thesis by (simp add: wstep_def)
qed

section \<open>Coherence\<close>

lemma coherent_init: "coherent (session bs (fst (Put b ob m sz fs)))"
  by (simp add: coherent_def session_def Put_def io_Pipe_def NewBlockingWriteCloser_def wg_Add_def
      released_def reader_closed_def writer_closed_def in_write_def events_ok_def
      slot_events_ok_def close_result_ok_def rerr_ok_def)

lemma close_result_ok_mono:
  "close_result_ok cp evs \<Longrightarrow> (set evs \<subseteq> set evs') \<Longrightarrow> close_result_ok cp evs'"
  by (auto simp: close_result_ok_def split: cpc.splits)

lemma coherent_cstep:
  assumes "coherent s" and "cstep s = Some s'"
  shows "coherent s'"
  using assms(2,1)
proof (cases rule: cstepE)
  case Wait
  with assms(1) have "released (worker (world s))"
    by (auto simp: coherent_def split: if_splits)
  with assms(1) have "err (blockingWriter (world s)) = None
      \<or> Ev_Release (err (blockingWriter (world s))) \<in> set (events (world s))"
    by (auto simp: coherent_def slot_events_ok_def released_def split: wpc.splits)
  with assms(1) Wait show ?thesis
    by (auto simp: coherent_def writer_closed_def in_write_def close_result_ok_def)
qed (auto simp: coherent_def writer_closed_def in_write_def close_result_ok_def)

lemma coherent_wstep:
  assumes "coherent s" and "wstep (world s) = Some w"
  shows "coherent (s\<lparr>world := w\<rparr>)"
  using assms(2,1)
  by (cases rule: wstepE)
     (auto simp: coherent_def released_def reader_closed_def events_ok_def Release_store_def
        slot_events_ok_def rerr_ok_def
        elim!: close_result_ok_mono split: option.splits if_splits)

lemma coherent_step: "coherent s \<Longrightarrow> step t s = Some s' \<Longrightarrow> coherent s'"
  by (cases t) (auto simp: step_def coherent_cstep coherent_wstep split: if_splits option.splits)

lemma coherent_exec: "coherent s \<Longrightarrow> exec ts s = Some s' \<Longrightarrow> coherent s'"
  by (induction ts arbitrary: s) (auto split: option.splits dest: coherent_step)

text \<open>
  In every execution of every session: what \<open>Close\<close> returned is nil or the error that the
  worker passed to \<open>Release\<close>, and once the worker has returned the error slot holds what it
  passed to \<open>Release\<close>.
\<close>

lemma close_result:
  assumes "exec ts (session bs (fst (Put b ob m sz fs))) = Some s"
  shows "caller s = C_Done r \<Longrightarrow> r = None \<or> Ev_Release r \<in> set (events (world s))"
    and "worker (world s) = W_Exit
      \<Longrightarrow> Ev_Release (err (blockingWriter (world s))) \<in> set (events (world s))"
  using coherent_exec[OF coherent_init assms]
  by (auto simp: coherent_def close_result_ok_def slot_events_ok_def)

section \<open>Termination and absence of deadlock\<close>

lemma fuel_cstep:
  assumes "cstep s = Some s'"
  shows "fuel s' < fuel s"
  using assms
  by (cases rule: cstepE)
     (auto simp: fuel_def caller_fuel_def split: option.splits)

lemma fuel_wstep:
  assumes "wstep (world s) = Some w"
  shows "fuel (s\<lparr>world := w\<rparr>) < fuel s"
  using assms
proof (cases rule: wstepE)
  case (Copy name n d)
  then have "take (nat (min 32768 n)) d \<noteq> []" by (cases d) auto
  then have "0 < length (take (nat (min 32768 n)) d)" by blast
  with Copy show ?thesis
    by (auto simp: fuel_def worker_fuel_def split: option.splits)
qed (auto simp: fuel_def worker_fuel_def split: option.splits)

lemma fuel_step: "step t s = Some s' \<Longrightarrow> fuel s' < fuel s"
  by (cases t) (auto simp: step_def fuel_cstep fuel_wstep split: if_splits option.splits)

lemma fuel_exec: "exec ts s = Some s' \<Longrightarrow> length ts + fuel s' \<le> fuel s"
proof (induction ts arbitrary: s)
  case Nil
  then show ?case by simp
next
  case (Cons t ts)
  then obtain s1 where s1: "step t s = Some s1" "exec ts s1 = Some s'"
    by (auto split: option.splits)
  from Cons.IH[OF s1(2)] fuel_step[OF s1(1)] show ?case by simp
qed

lemma cstep_enabled:
  "(cstep s \<noteq> None) =
    (case caller s of
       C_Run _ \<Rightarrow> True
     | C_Write _ _ \<Rightarrow> data (rw (world s)) = None \<or> rerr (rw (world s)) \<noteq> None
     | C_Wait \<Rightarrow> release (blockingWriter (world s)) = 0
     | C_Done _ \<Rightarrow> False)"
  by (auto simp: cstep_def Let_def PipeWriter_Close_def pipe_write_begin_def pipe_write_end_def
      Close_end_def wg_Wait_returns_def split: cpc.splits list.splits option.splits)

lemma wstep_enabled:
  "(wstep w \<noteq> None) =
    (case worker w of
       W_CopyN _ n \<Rightarrow>
         n \<le> 0 \<or> rerr (rw w) \<noteq> None \<or> data (rw w) \<noteq> None \<or> werr (rw w) \<noteq> None
     | W_Exit \<Rightarrow> False
     | W_Panic _ \<Rightarrow> False
     | _ \<Rightarrow> True)"
proof (cases "worker w")
  case (W_CopyN name n)
  then show ?thesis
    by (auto simp: wstep_def pipe_read_def split: option.splits sum.splits)
next
  case (W_Release e)
  then show ?thesis by (auto simp: wstep_def split: sum.splits)
qed (auto simp: wstep_def Let_def)

lemma step_enabled:
  "(step t s \<noteq> None) =
    (\<not> panicked s \<and> (case t of Caller \<Rightarrow> cstep s \<noteq> None | Worker \<Rightarrow> wstep (world s) \<noteq> None))"
  by (cases t) (auto simp: step_def split: option.splits)

text \<open>No deadlock: a coherent state in which neither goroutine can move is one in which
  \<open>Close\<close> has returned.\<close>

lemma coherent_not_stuck:
  assumes coh: "coherent s" and stuck: "\<forall>t. step t s = None"
  shows "\<exists>r. caller s = C_Done r"
proof -
  from coh have np: "\<not> panicked s"
    by (auto simp: coherent_def panicked_def events_ok_def split: wpc.splits)
  from stuck have "step Caller s = None" "step Worker s = None" by blast+
  with np step_enabled[of Caller s] step_enabled[of Worker s]
  have c: "cstep s = None" and w: "wstep (world s) = None" by auto
  show ?thesis
  proof (cases "caller s")
    case (C_Run bs)
    with c cstep_enabled[of s] show ?thesis by simp
  next
    case (C_Write b bs)
    with c cstep_enabled[of s] have d: "data (rw (world s)) \<noteq> None" "rerr (rw (world s)) = None"
      by auto
    with coh have "\<not> reader_closed (worker (world s))" by (simp add: coherent_def)
    with d w wstep_enabled[of "world s"] coh show ?thesis
      by (auto simp: reader_closed_def coherent_def events_ok_def split: wpc.splits)
  next
    case C_Wait
    with c cstep_enabled[of s] have "release (blockingWriter (world s)) \<noteq> 0" by auto
    with coh have nr: "\<not> released (worker (world s))"
      by (auto simp: coherent_def split: if_splits)
    from coh C_Wait have "werr (rw (world s)) \<noteq> None"
      by (simp add: coherent_def writer_closed_def)
    with nr w wstep_enabled[of "world s"] coh show ?thesis
      by (auto simp: released_def coherent_def events_ok_def split: wpc.splits)
  next
    case (C_Done r)
    then show ?thesis by blast
  qed
qed

text \<open>From every coherent state some schedule lets \<open>Close\<close> return.\<close>

lemma coherent_can_finish:
  "coherent s \<Longrightarrow> \<exists>ts s' r. exec ts s = Some s' \<and> caller s' = C_Done r"
proof (induction "fuel s" arbitrary: s rule: less_induct)
  case less
  show ?case
  proof (cases "\<exists>r. caller s = C_Done r")
    case True
    then obtain r where "caller s = C_Done r" by blast
    then have "exec [] s = Some s \<and> caller s = C_Done r" by simp
    then show ?thesis by blast
  next
    case False
    with coherent_not_stuck[OF less.prems] obtain t s1 where s1: "step t s = Some s1"
      by fastforce
    from fuel_step[OF s1] coherent_step[OF less.prems s1] less.hyps
    obtain ts s' r where "exec ts s1 = Some s'" "caller s' = C_Done r" by blast
    with s1 have "exec (t # ts) s = Some s' \<and> caller s' = C_Done r" by simp
    then show ?thesis by blast
  qed
qed


section \<open>Evaluation of schedules\<close>

lemmas run_defs =
  step_def panicked_def cstep_def wstep_def Let_def session_def Put_def io_Pipe_def
  NewBlockingWriteCloser_def wg_Add_def wg_Done_def wg_Wait_returns_def
  Release_Done_def Release_store_def Close_begin_def Close_end_def
  pipe_read_def pipe_write_begin_def pipe_write_end_def rclose_def wclose_def PipeWriter_Close_def
  os_Create_def os_Write_def os_IsExist_def Write_returns_def iodine_New_def

lemma Join_b_o: "filepath_Join ''b'' ''o.txt'' = ''b/o.txt''"
  by (simp add: filepath_Join_def filepath_Clean_def)

section \<open>The course of a request\<close>

lemma tracking_init:
  "tracking b ob sz fs (concat bs) (session bs (fst (Put b ob m sz fs)))"
  by (simp add: tracking_def session_def Put_def NewBlockingWriteCloser_def track_pc_def
      track_done_def pending_def)

lemma track_done_released:
  "track_done ex cp pc \<Longrightarrow> (released pc \<Longrightarrow> released pc') \<Longrightarrow> track_done ex cp pc'"
  by (auto simp: track_done_def split: cpc.splits)

lemma pending_world_eq:
  "data (rw w) = data (rw (world s)) \<Longrightarrow> pending (s\<lparr>world := w\<rparr>) = pending s"
  by (simp add: pending_def split: cpc.splits)

lemma coherent_reader_closed:
  "coherent s \<Longrightarrow> rerr (rw (world s)) = Some e \<Longrightarrow> reader_closed (worker (world s))"
  by (auto simp: coherent_def)

text \<open>After the consumer end is closed the pending bytes do not matter any more.\<close>

lemma track_pc_closed:
  "reader_closed pc \<Longrightarrow> track_pc b ob sz fs content pc fl pend slot
    \<Longrightarrow> track_pc b ob sz fs content pc fl pend' slot"
  by (auto simp: track_pc_def reader_closed_def split: wpc.splits)

lemma tracking_cstep:
  assumes coh: "coherent s" and tr: "tracking b ob sz fs content s" and st: "cstep s = Some s'"
  shows "tracking b ob sz fs content s'"
  using st
proof (cases rule: cstepE)
  case Close
  with tr show ?thesis
    by (simp add: tracking_def pending_def track_done_def)
next
  case (WriteFail x xs)
  with coh show ?thesis by (simp add: coherent_def writer_closed_def)
next
  case (WriteBegin x xs)
  with tr show ?thesis
    by (simp add: tracking_def pending_def track_done_def)
next
  case (WriteEnd x xs)
  with tr show ?thesis
    by (simp add: tracking_def pending_def track_done_def)
next
  case (WriteAbort x xs d e)
  from coherent_reader_closed[OF coh WriteAbort(3)] tr
  have "track_pc b ob sz fs content (worker (world s)) (files (fsys (world s))) (concat xs)
      (err (blockingWriter (world s)))"
    by (auto simp: tracking_def elim: track_pc_closed)
  with tr WriteAbort show ?thesis
    by (simp add: tracking_def pending_def track_done_def)
next
  case Wait
  with coh have rel: "released (worker (world s))"
    by (auto simp: coherent_def split: if_splits)
  have "err (blockingWriter (world s)) = None
      \<or> err (blockingWriter (world s)) = expected_error b ob sz fs content"
  proof (cases "worker (world s) = W_Exit")
    case True
    with tr show ?thesis by (simp add: tracking_def track_pc_def)
  next
    case False
    with coh rel show ?thesis
      by (auto simp: coherent_def slot_events_ok_def released_def split: wpc.splits)
  qed
  with tr Wait rel show ?thesis
    by (simp add: tracking_def pending_def track_done_def)
qed

lemma tracking_wstep:
  assumes coh: "coherent s" and tr: "tracking b ob sz fs content s"
    and st: "wstep (world s) = Some w"
  shows "tracking b ob sz fs content (s\<lparr>world := w\<rparr>)"
  using st
proof (cases rule: wstepE)
  case BadName
  with tr show ?thesis
    by (auto simp: tracking_def track_pc_def expected_error_def expected_files_def created_def
        pending_world_eq released_def elim!: track_done_released)
next
  case BadSize
  with tr show ?thesis
    by (auto simp: tracking_def track_pc_def expected_error_def expected_files_def created_def
        pending_world_eq released_def elim!: track_done_released)
next
  case (Exists e)
  with tr show ?thesis
    by (auto simp: tracking_def track_pc_def expected_error_def expected_files_def created_def
        pending_world_eq released_def elim!: track_done_released)
next
  case (CreateFail e)
  with tr show ?thesis
    by (auto simp: tracking_def track_pc_def expected_error_def expected_files_def created_def
        pending_world_eq released_def elim!: track_done_released)
next
  case Create
  with tr show ?thesis
    by (auto simp: tracking_def track_pc_def copying_def created_def
        pending_world_eq released_def elim!: track_done_released)
next
  case (CopyDone nm n)
  let ?name = "filepath_Join b ob"
  from tr CopyDone have cp: "copying b ob sz fs content nm n (files (fsys (world s))) (pending s)"
    by (simp add: tracking_def track_pc_def)
  then obtain c where c: "files (fsys (world s)) ?name = Some c"
    "files (fsys (world s)) = (files fs)(?name \<mapsto> c)" "c @ pending s = content"
    "n = sz - int (length c)" "write_fault fs ?name = None \<or> c = []"
    and cr: "created b ob sz fs" and n0: "0 \<le> n"
    by (auto simp: copying_def split: option.splits)
  from n0 CopyDone(2) c(4) have len: "int (length c) = sz" by simp
  then have lc: "length c = nat sz" by simp
  from c(3) lc have tk: "take (nat sz) content = c" by auto
  have ee: "expected_error b ob sz fs content = None"
  proof (cases "sz = 0")
    case True
    with cr show ?thesis by (simp add: expected_error_def created_def)
  next
    case False
    with len have "c \<noteq> []" by auto
    with c(5) have wf: "write_fault fs ?name = None" by simp
    from \<open>c \<noteq> []\<close> c(3) have "content \<noteq> []" by auto
    moreover from c(3) len have "sz \<le> int (length content)" by auto
    ultimately show ?thesis using cr wf False
      by (simp add: expected_error_def created_def)
  qed
  have ef: "expected_files b ob sz fs content = files (fsys (world s))"
  proof (cases "write_fault fs ?name")
    case None
    with cr tk c(2) show ?thesis by (simp add: expected_files_def)
  next
    case (Some x)
    with c(5) have "c = []" by simp
    with cr Some c(2) show ?thesis by (simp add: expected_files_def)
  qed
  from tr CopyDone ee ef show ?thesis
    by (auto simp: tracking_def track_pc_def pending_world_eq released_def
        elim!: track_done_released)
next
  case (ReadClosed nm n)
  with coh show ?thesis by (simp add: coherent_def reader_closed_def)
next
  case (ReadEOF nm n e)
  let ?name = "filepath_Join b ob"
  from ReadEOF coh have wc: "writer_closed (caller s)" and e: "e = EOF"
    by (auto simp: coherent_def split: if_splits)
  then have pe: "pending s = []" by (auto simp: writer_closed_def pending_def split: cpc.splits)
  from tr ReadEOF have cp: "copying b ob sz fs content nm n (files (fsys (world s))) (pending s)"
    by (simp add: tracking_def track_pc_def)
  with pe obtain c where c: "files (fsys (world s)) = (files fs)(?name \<mapsto> content)"
    "n = sz - int (length content)" "write_fault fs ?name = None \<or> content = []"
    and cr: "created b ob sz fs"
    by (auto simp: copying_def split: option.splits)
  from c(2) ReadEOF(2) have short: "int (length content) < sz" by simp
  then have sz0: "sz \<noteq> 0" by auto
  from cr sz0 short c(3) have ee: "expected_error b ob sz fs content = Some (Iodine EOF)"
    by (auto simp: expected_error_def created_def split: option.splits)
  from short have "take (nat sz) content = content" by simp
  with cr c(1,3) have ef: "expected_files b ob sz fs content = files (fsys (world s))"
    by (auto simp: expected_files_def split: option.splits)
  from tr ReadEOF e ee ef show ?thesis
    by (auto simp: tracking_def track_pc_def pending_world_eq released_def
        elim!: track_done_released)
next
  case (ReadEmpty nm n)
  with coh have "in_write (caller s)" by (auto simp: coherent_def)
  with ReadEmpty have "pending (s\<lparr>world := w\<rparr>) = pending s"
    by (auto simp: in_write_def pending_def split: cpc.splits)
  with tr ReadEmpty show ?thesis
    by (auto simp: tracking_def track_pc_def released_def elim!: track_done_released)
next
  case (WriteFault nm n d e)
  let ?name = "filepath_Join b ob"
  from WriteFault coh have "in_write (caller s)" by (auto simp: coherent_def)
  with WriteFault have pn: "pending s \<noteq> []"
    by (auto simp: in_write_def pending_def split: cpc.splits)
  from tr WriteFault have cp: "copying b ob sz fs content nm n (files (fsys (world s))) (pending s)"
    and wfe: "write_fault (fsys (world s)) = write_fault fs"
    by (simp_all add: tracking_def track_pc_def)
  then obtain c where c: "files (fsys (world s)) = (files fs)(?name \<mapsto> c)"
    "c @ pending s = content" "n = sz - int (length c)" "write_fault fs ?name = None \<or> c = []"
    and cr: "created b ob sz fs" and nm: "nm = ?name"
    by (auto simp: copying_def split: option.splits)
  from WriteFault(6) wfe nm have wf: "write_fault fs ?name = Some e" by simp
  with c(4) have c0: "c = []" by simp
  with c(2) pn have cn: "content \<noteq> []" by simp
  from c(3) c0 WriteFault(2) have sz0: "sz \<noteq> 0" by simp
  from cr sz0 cn wf have ee: "expected_error b ob sz fs content = Some (Iodine (PathError e))"
    by (simp add: expected_error_def created_def)
  from cr wf c(1) c0 have ef: "expected_files b ob sz fs content = files (fsys (world s))"
    by (simp add: expected_files_def)
  from tr WriteFault ee ef show ?thesis
    by (auto simp: tracking_def track_pc_def pending_world_eq released_def
        elim!: track_done_released)
next
  case (Copy nm n d)
  let ?name = "filepath_Join b ob"
  from Copy coh have iw: "in_write (caller s)" by (auto simp: coherent_def)
  define k where "k = nat (min 32768 n)"
  from iw obtain x xs where cw: "caller s = C_Write x xs"
    by (auto simp: in_write_def split: cpc.splits)
  with Copy have p: "pending s = d @ concat xs" by (simp add: pending_def)
  from cw Copy have p': "pending (s\<lparr>world := w\<rparr>) = drop k d @ concat xs"
    by (simp add: pending_def k_def)
  from tr Copy have cp: "copying b ob sz fs content nm n (files (fsys (world s))) (pending s)"
    and wfe: "write_fault (fsys (world s)) = write_fault fs"
    by (simp_all add: tracking_def track_pc_def)
  then obtain c where c: "files (fsys (world s)) ?name = Some c"
    "files (fsys (world s)) = (files fs)(?name \<mapsto> c)"
    "c @ pending s = content" "n = sz - int (length c)"
    and cr: "created b ob sz fs" and nm: "nm = ?name"
    by (auto simp: copying_def split: option.splits)
  from Copy(6) wfe nm have wf: "write_fault fs ?name = None" by simp
  have fl: "files (fsys w) = (files fs)(?name \<mapsto> c @ take k d)"
    using Copy(7) c(1,2) nm by (simp add: k_def)
  have "(c @ take k d) @ drop k d @ concat xs = c @ (take k d @ drop k d) @ concat xs"
    by (simp only: append_assoc)
  with c(3) p have cont: "(c @ take k d) @ drop k d @ concat xs = content"
    by (simp only: append_take_drop_id)
  have len: "n - int (length (take k d)) = sz - int (length (c @ take k d))"
    using c(4) by simp
  have "int (length (take k d)) \<le> n" using Copy(2) by (simp add: k_def)
  then have n0: "0 \<le> n - int (length (take k d))" by simp
  have "copying b ob sz fs content nm (n - int (length (take k d))) (files (fsys w))
      (pending (s\<lparr>world := w\<rparr>))"
    unfolding copying_def using cr nm n0 fl p' cont len wf by simp
  with tr Copy show ?thesis
    by (auto simp: tracking_def track_pc_def k_def released_def elim!: track_done_released)
next
  case (Fail e)
  with tr show ?thesis
    by (auto simp: tracking_def track_pc_def pending_world_eq released_def
        elim!: track_done_released)
next
  case (Done e)
  with tr show ?thesis
    by (auto simp: tracking_def track_pc_def pending_world_eq released_def
        elim!: track_done_released)
next
  case (Panic e)
  with coh show ?thesis by (simp add: coherent_def released_def)
next
  case (Store e)
  from coh Store have "err (blockingWriter (world s)) = None"
    by (simp add: coherent_def slot_events_ok_def)
  note slot = this
  from tr Store have ee: "expected_error b ob sz fs content = e"
    and ef: "files (fsys (world s)) = expected_files b ob sz fs content"
    by (simp_all add: tracking_def track_pc_def)
  from tr have td: "track_done (expected_error b ob sz fs content) (caller s) (worker (world s))"
    by (simp add: tracking_def)
  show ?thesis
  proof (cases e)
    case None
    with Store have w: "w = (world s)\<lparr>blockingWriter := blockingWriter (world s), worker := W_Close\<rparr>"
      by (simp add: Release_store_def)
    from td Store have "track_done (expected_error b ob sz fs content) (caller s) W_Close"
      by (auto simp: released_def elim!: track_done_released)
    with tr ee ef None show ?thesis
      unfolding w by (simp add: tracking_def track_pc_def pending_world_eq)
  next
    case (Some x)
    with Store have w: "w = (world s)\<lparr>blockingWriter := (blockingWriter (world s))\<lparr>err := Some x\<rparr>,
        worker := W_Exit\<rparr>"
      by (simp add: Release_store_def)
    from td Store have "track_done (expected_error b ob sz fs content) (caller s) W_Exit"
      by (auto simp: released_def elim!: track_done_released)
    with tr ee ef Some show ?thesis
      unfolding w by (simp add: tracking_def track_pc_def pending_world_eq)
  qed
next
  case CloseR
  from coh CloseR have "err (blockingWriter (world s)) = None"
    by (simp add: coherent_def slot_events_ok_def)
  with tr CloseR show ?thesis
    by (auto simp: tracking_def track_pc_def pending_world_eq released_def
        elim!: track_done_released)
qed

lemma tracking_step:
  "coherent s \<Longrightarrow> tracking b ob sz fs content s \<Longrightarrow> step t s = Some s'
    \<Longrightarrow> tracking b ob sz fs content s'"
  by (cases t) (auto simp: step_def tracking_cstep tracking_wstep split: if_splits option.splits)

lemma tracking_exec:
  "coherent s \<Longrightarrow> tracking b ob sz fs content s \<Longrightarrow> exec ts s = Some s'
    \<Longrightarrow> tracking b ob sz fs content s'"
proof (induction ts arbitrary: s)
  case Nil
  then show ?case by simp
next
  case (Cons t ts)
  then obtain s1 where s1: "step t s = Some s1" "exec ts s1 = Some s'"
    by (auto split: option.splits)
  from Cons.IH[OF coherent_step[OF Cons.prems(1) s1(1)]
      tracking_step[OF Cons.prems(1,2) s1(1)] s1(2)]
  show ?case .
qed

section \<open>The outcome of the worker\<close>

lemma signalled_once_iff:
  "signalled_once evs =
    ((\<exists>e. evs = [Ev_CloseWithError e, Ev_Release (Some e)]) \<or> evs = [Ev_Release None, Ev_Close])"
  by (cases evs rule: signalled_once.cases) auto

text \<open>
  When the worker has returned, the error slot holds the error of the branch that the
  request, the file system and the content select, the files are those that this branch
  leaves, and the worker made the two calls of that branch, on the consumer end and on the
  handle, in the order of that branch.
\<close>

lemma worker_outcome:
  assumes coh: "coherent s" and tr: "tracking b ob sz fs content s"
    and ex: "worker (world s) = W_Exit"
  shows "err (blockingWriter (world s)) = expected_error b ob sz fs content"
    and "files (fsys (world s)) = expected_files b ob sz fs content"
    and "case expected_error b ob sz fs content of
           Some e \<Rightarrow> failed_with e s | None \<Rightarrow> succeeded s"
proof -
  from tr ex show sl: "err (blockingWriter (world s)) = expected_error b ob sz fs content"
    and "files (fsys (world s)) = expected_files b ob sz fs content"
    by (simp_all add: tracking_def track_pc_def)
  from coh ex have so: "signalled_once (events (world s))"
    and rel: "Ev_Release (err (blockingWriter (world s))) \<in> set (events (world s))"
    and re: "rerr (rw (world s))
      = Some (case events (world s) of Ev_CloseWithError e # _ \<Rightarrow> e | _ \<Rightarrow> ErrClosedPipe)"
    by (simp_all add: coherent_def events_ok_def slot_events_ok_def rerr_ok_def)
  show "case expected_error b ob sz fs content of
           Some e \<Rightarrow> failed_with e s | None \<Rightarrow> succeeded s"
  proof (cases "expected_error b ob sz fs content")
    case None
    with sl rel so have "events (world s) = [Ev_Release None, Ev_Close]"
      by (auto simp: signalled_once_iff)
    with re None show ?thesis by (simp add: succeeded_def)
  next
    case (Some e)
    with sl rel so have "events (world s) = [Ev_CloseWithError e, Ev_Release (Some e)]"
      by (auto simp: signalled_once_iff)
    with re Some show ?thesis by (simp add: failed_with_def)
  qed
qed

text \<open>
  When \<open>Close\<close> has returned, it returned nil or the error of the branch, and the files are
  those that the branch leaves.
\<close>

lemma close_outcome:
  assumes tr: "tracking b ob sz fs content s" and cd: "caller s = C_Done r"
  shows "r = None \<or> r = expected_error b ob sz fs content"
    and "files (fsys (world s)) = expected_files b ob sz fs content"
proof -
  from tr cd show "r = None \<or> r = expected_error b ob sz fs content"
    by (auto simp: tracking_def track_done_def)
  from tr cd have "released (worker (world s))" by (simp add: tracking_def track_done_def)
  with tr show "files (fsys (world s)) = expected_files b ob sz fs content"
    by (auto simp: tracking_def track_pc_def released_def split: wpc.splits)
qed

text \<open>A request that is rejected, or whose file is refused, leaves every file as it was.\<close>

lemma files_untouched:
  assumes tr: "tracking b ob sz fs content s" and nc: "\<not> created b ob sz fs"
  shows "fsys (world s) = fs"
proof -
  from nc have ef: "expected_files b ob sz fs content = files fs"
    by (simp add: expected_files_def)
  from tr nc ef have "files (fsys (world s)) = files fs"
    by (auto simp: tracking_def track_pc_def copying_def split: wpc.splits)
  with tr show ?thesis by (simp add: tracking_def)
qed

section \<open>The signals of the worker\<close>



section \<open>Uploads that nothing refuses\<close>

lemma expected_upload:
  assumes "b \<noteq> []" "ob \<noteq> []" "sz = int (length content)"
    and "create_fault fs (filepath_Join b ob) = None"
    and "content = [] \<or> write_fault fs (filepath_Join b ob) = None"
  shows "expected_error b ob sz fs content = None"
    and "expected_files b ob sz fs content (filepath_Join b ob) = Some content"
  using assms
  by (auto simp: expected_error_def expected_files_def created_def split: option.splits)

lemma expected_short:
  assumes "b \<noteq> []" "ob \<noteq> []" "int (length content) < sz"
    and "create_fault fs (filepath_Join b ob) = None"
    and "content = [] \<or> write_fault fs (filepath_Join b ob) = None"
  shows "expected_error b ob sz fs content = Some (Iodine EOF)"
    and "expected_files b ob sz fs content (filepath_Join b ob) = Some content"
  using assms
  by (auto simp: expected_error_def expected_files_def created_def split: option.splits)

text \<open>
  The total correctness of an upload that nothing refuses, over every schedule: every
  execution is bounded by the fuel of the first state, stops only after \<open>Close\<close> has
  returned, can always be continued until \<open>Close\<close> returns, and whenever \<open>Close\<close> has
  returned it returned nil and the file holds the content.
\<close>

lemma upload_total:
  assumes valid: "b \<noteq> []" "ob \<noteq> []" "sz = int (length (concat bs))"
    and env: "create_fault fs (filepath_Join b ob) = None"
      "concat bs = [] \<or> write_fault fs (filepath_Join b ob) = None"
    and run: "exec ts (session bs (fst (Put b ob m sz fs))) = Some s"
  shows "length ts \<le> fuel (session bs (fst (Put b ob m sz fs)))"
    and "(\<forall>t. step t s = None) \<longrightarrow> caller s = C_Done None"
    and "\<forall>r. caller s = C_Done r \<longrightarrow>
           r = None \<and> files (fsys (world s)) (filepath_Join b ob) = Some (concat bs)"
    and "\<exists>ts' s'. exec ts' s = Some s' \<and> caller s' = C_Done None
           \<and> files (fsys (world s')) (filepath_Join b ob) = Some (concat bs)"
proof -
  let ?name = "filepath_Join b ob"
  note ex = expected_upload[OF valid env]
  from coherent_exec[OF coherent_init run] have coh: "coherent s" .
  from tracking_exec[OF coherent_init tracking_init run]
  have tr: "tracking b ob sz fs (concat bs) s" .
  have res: "r = None \<and> files (fsys (world s')) ?name = Some (concat bs)"
    if "tracking b ob sz fs (concat bs) s'" "caller s' = C_Done r" for s' r
    using close_outcome[OF that] ex by auto
  from fuel_exec[OF run] show "length ts \<le> fuel (session bs (fst (Put b ob m sz fs)))"
    by simp
  show "(\<forall>t. step t s = None) \<longrightarrow> caller s = C_Done None"
    using coherent_not_stuck[OF coh] res[OF tr] by blast
  show "\<forall>r. caller s = C_Done r \<longrightarrow>
           r = None \<and> files (fsys (world s)) ?name = Some (concat bs)"
    using res[OF tr] by blast
  from coherent_can_finish[OF coh] obtain ts' s' r
    where fin: "exec ts' s = Some s'" "caller s' = C_Done r" by blast
  from tracking_exec[OF coh tr fin(1)] have "tracking b ob sz fs (concat bs) s'" .
  from res[OF this fin(2)] fin
  show "\<exists>ts' s'. exec ts' s = Some s' \<and> caller s' = C_Done None
           \<and> files (fsys (world s')) ?name = Some (concat bs)"
    by blast
qed

text \<open>
  A short transfer, over every schedule: a valid request of size \<open>sz\<close> that nothing
  refuses, and a caller that writes fewer than \<open>sz\<close> bytes and closes. \<open>Close\<close> returns the
  wrapped \<open>EOF\<close> or nil, nothing else; and when the worker has returned, it has closed the
  consumer end with the wrapped \<open>EOF\<close> and passed it to \<open>Release\<close>, the error is in the slot,
  and the file holds the bytes that were written.
\<close>

lemma short_transfer:
  assumes valid: "b \<noteq> []" "ob \<noteq> []" "int (length (concat bs)) < sz"
    and env: "create_fault fs (filepath_Join b ob) = None"
      "concat bs = [] \<or> write_fault fs (filepath_Join b ob) = None"
    and run: "exec ts (session bs (fst (Put b ob m sz fs))) = Some s"
  shows "caller s = C_Done r \<Longrightarrow> r = None \<or> r = Some (Iodine EOF)"
    and "worker (world s) = W_Exit \<Longrightarrow>
           events (world s) = [Ev_CloseWithError (Iodine EOF), Ev_Release (Some (Iodine EOF))]
           \<and> err (blockingWriter (world s)) = Some (Iodine EOF)
           \<and> files (fsys (world s)) (filepath_Join b ob) = Some (concat bs)"
proof -
  note ex = expected_short[OF valid env]
  from coherent_exec[OF coherent_init run] have coh: "coherent s" .
  from tracking_exec[OF coherent_init tracking_init run]
  have tr: "tracking b ob sz fs (concat bs) s" .
  show "caller s = C_Done r \<Longrightarrow> r = None \<or> r = Some (Iodine EOF)"
    using close_outcome(1)[OF tr] ex(1) by auto
  show "events (world s) = [Ev_CloseWithError (Iodine EOF), Ev_Release (Some (Iodine EOF))]
        \<and> err (blockingWriter (world s)) = Some (Iodine EOF)
        \<and> files (fsys (world s)) (filepath_Join b ob) = Some (concat bs)"
    if "worker (world s) = W_Exit"
    using worker_outcome[OF coh tr that] ex by (simp add: failed_with_def)
qed

text \<open>
  C4, as the claim states it, fails: a fresh identity is not enough, the file system must
  also let the worker create the file and write it. \<open>Put("b", "o.txt", "", 5)\<close>, the caller
  writes \<open>hello\<close> and closes. First execution: there is no directory \<open>b\<close>, \<open>os.Create\<close>
  fails with \<open>ENOENT\<close>; the \<open>Write\<close> returns 0 and the error, \<open>Close\<close> returns the error and
  there is no file. Second execution: the file is created but the device is full, the
  write to the file fails with \<open>ENOSPC\<close>; the \<open>Write\<close> of the handle has returned 5 and nil,
  \<open>Close\<close> returns the error and the file is empty.
\<close>

theorem Put_write_Close_fails_when_refused:
  "exec [Worker, Worker, Worker, Worker, Caller, Caller, Caller, Caller]
     (session [''hello''] (fst (Put ''b'' ''o.txt'' [] 5 (refusing_fs ENOENT))))
   = Some \<lparr>caller = C_Done (Some (Iodine (PathError ENOENT))),
       wlog = [(0, Some (Iodine (PathError ENOENT)))],
       world = \<lparr>bucket = ''b'', object = ''o.txt'', size64 = 5,
         rw = \<lparr>data = None, rerr = Some (Iodine (PathError ENOENT)), werr = Some EOF\<rparr>,
         blockingWriter = \<lparr>release = 0, err = Some (Iodine (PathError ENOENT))\<rparr>,
         fsys = refusing_fs ENOENT, worker = W_Exit,
         events = [Ev_CloseWithError (Iodine (PathError ENOENT)),
                   Ev_Release (Some (Iodine (PathError ENOENT)))]\<rparr>\<rparr>
   \<and> files (refusing_fs ENOENT) ''b/o.txt'' = None
   \<and> exec [Worker, Caller, Worker, Worker, Worker, Worker, Caller, Caller, Caller]
     (session [''hello''] (fst (Put ''b'' ''o.txt'' [] 5 (full_fs ENOSPC))))
   = Some \<lparr>caller = C_Done (Some (Iodine (PathError ENOSPC))), wlog = [(5, None)],
       world = \<lparr>bucket = ''b'', object = ''o.txt'', size64 = 5,
         rw = \<lparr>data = None, rerr = Some (Iodine (PathError ENOSPC)), werr = Some EOF\<rparr>,
         blockingWriter = \<lparr>release = 0, err = Some (Iodine (PathError ENOSPC))\<rparr>,
         fsys = (full_fs ENOSPC)\<lparr>files := [''b/o.txt'' \<mapsto> []]\<rparr>, worker = W_Exit,
         events = [Ev_CloseWithError (Iodine (PathError ENOSPC)),
                   Ev_Release (Some (Iodine (PathError ENOSPC)))]\<rparr>\<rparr>
   \<and> files (full_fs ENOSPC) ''b/o.txt'' = None"
  by (simp add: run_defs Join_b_o refusing_fs_def full_fs_def)

text \<open>
  C4, amended. A request with a non-empty bucket, a non-empty object and a size \<open>sz \<ge> 0\<close>,
  for a file that does not exist yet and that the file system lets the worker create and
  write (no fault at its name); the caller writes slices of \<open>sz\<close> bytes in total and calls
  \<open>Close\<close>. Then under every schedule: the execution is bounded, it cannot stop before
  \<open>Close\<close> has returned, it can always be continued until \<open>Close\<close> returns, and whenever
  \<open>Close\<close> has returned it returned nil and the file at \<open>filepath.Join(bucket, object)\<close> holds
  exactly the bytes written, in their order.
\<close>

theorem Put_write_Close_stores_content:
  assumes "b \<noteq> []" and "ob \<noteq> []" and "0 \<le> sz" and "length (concat bs) = nat sz"
    and "files fs (filepath_Join b ob) = None"
    and "create_fault fs (filepath_Join b ob) = None"
    and "write_fault fs (filepath_Join b ob) = None"
    and "exec ts (session bs (fst (Put b ob m sz fs))) = Some s"
  shows "length ts \<le> fuel (session bs (fst (Put b ob m sz fs)))
    \<and> ((\<forall>t. step t s = None) \<longrightarrow> caller s = C_Done None)
    \<and> (\<forall>r. caller s = C_Done r \<longrightarrow>
           r = None \<and> files (fsys (world s)) (filepath_Join b ob) = Some (concat bs))
    \<and> (\<exists>ts' s'. exec ts' s = Some s' \<and> caller s' = C_Done None
           \<and> files (fsys (world s')) (filepath_Join b ob) = Some (concat bs))"
proof -
  from assms(3,4) have sz: "sz = int (length (concat bs))" by simp
  from assms(7) have wf: "concat bs = [] \<or> write_fault fs (filepath_Join b ob) = None" by simp
  from upload_total[OF assms(1,2) sz assms(6) wf assms(8)] show ?thesis by blast
qed

theorem Put_write_Close_stores_content_witness:
  "\<exists>s. exec [Worker, Caller, Worker, Caller, Caller, Worker, Caller, Caller,
             Worker, Worker, Worker, Worker, Caller]
          (session [''hel'', ''lo''] (fst (Put ''b'' ''o.txt'' [] 5
             (quiet_fs Map.empty)))) = Some s
      \<and> caller s = C_Done None
      \<and> wlog s = [(3, None), (2, None)]
      \<and> files (fsys (world s)) ''b/o.txt'' = Some ''hello''"
proof -
  let ?fs = "quiet_fs Map.empty"
  let ?ts = "[Worker, Caller, Worker, Caller, Caller, Worker, Caller, Caller,
             Worker, Worker, Worker, Worker, Caller]"
  obtain s where s: "exec ?ts (session [''hel'', ''lo''] (fst (Put ''b'' ''o.txt'' [] 5 ?fs))) = Some s"
    "\<exists>r. caller s = C_Done r" "wlog s = [(3, None), (2, None)]"
    by (simp add: run_defs Join_b_o quiet_fs_def)
  have "files (fsys (world s)) (filepath_Join ''b'' ''o.txt'') = Some (concat [''hel'', ''lo''])
      \<and> caller s = C_Done None"
    using Put_write_Close_stores_content[of "''b''" "''o.txt''" 5 "[''hel'', ''lo'']" ?fs ?ts "[]" s]
      s(1,2)
    by (auto simp: Join_b_o quiet_fs_def)
  with s show ?thesis by (auto simp: Join_b_o quiet_fs_def)
qed

text \<open>
  C10, as the claim states it, fails: a fresh identity is not enough, the file system must
  also let the worker create the file. \<open>Put("b", "o.txt", "", 0)\<close> when there is no
  directory \<open>b\<close>, no write, then \<open>Close\<close>: \<open>os.Create\<close> fails with \<open>ENOENT\<close>, \<open>Close\<close>
  returns the error and there is no file.
\<close>

theorem Put_size_zero_Close_fails_when_refused:
  "exec [Worker, Worker, Worker, Worker, Caller, Caller]
     (session [] (fst (Put ''b'' ''o.txt'' [] 0 (refusing_fs ENOENT))))
   = Some \<lparr>caller = C_Done (Some (Iodine (PathError ENOENT))), wlog = [],
       world = \<lparr>bucket = ''b'', object = ''o.txt'', size64 = 0,
         rw = \<lparr>data = None, rerr = Some (Iodine (PathError ENOENT)), werr = Some EOF\<rparr>,
         blockingWriter = \<lparr>release = 0, err = Some (Iodine (PathError ENOENT))\<rparr>,
         fsys = refusing_fs ENOENT, worker = W_Exit,
         events = [Ev_CloseWithError (Iodine (PathError ENOENT)),
                   Ev_Release (Some (Iodine (PathError ENOENT)))]\<rparr>\<rparr>
   \<and> files (refusing_fs ENOENT) ''b/o.txt'' = None"
  by (simp add: run_defs Join_b_o refusing_fs_def)

text \<open>
  C10, amended. A request of size 0 with non-empty names for a file that does not exist yet
  and that the file system lets the worker create; the caller writes nothing and calls
  \<open>Close\<close>. Then under every schedule the execution is bounded, cannot stop before \<open>Close\<close>
  has returned and can always be continued until it returns; whenever \<open>Close\<close> has returned
  it returned nil and the file exists and is empty. The copy needs nothing from the
  producer: the worker alone, before the caller has made any step, runs to its end and
  leaves the empty file.
\<close>

theorem Put_size_zero_Close:
  assumes "b \<noteq> []" and "ob \<noteq> []"
    and "files fs (filepath_Join b ob) = None"
    and "create_fault fs (filepath_Join b ob) = None"
    and "exec ts (session [] (fst (Put b ob m 0 fs))) = Some s"
  shows "length ts \<le> fuel (session [] (fst (Put b ob m 0 fs)))
    \<and> ((\<forall>t. step t s = None) \<longrightarrow> caller s = C_Done None)
    \<and> (\<forall>r. caller s = C_Done r \<longrightarrow>
           r = None \<and> files (fsys (world s)) (filepath_Join b ob) = Some [])
    \<and> (\<exists>ts' s'. exec ts' s = Some s' \<and> caller s' = C_Done None
           \<and> files (fsys (world s')) (filepath_Join b ob) = Some [])
    \<and> (\<exists>s'. exec [Worker, Worker, Worker, Worker, Worker]
               (session [] (fst (Put b ob m 0 fs))) = Some s'
           \<and> caller s' = C_Run [] \<and> worker (world s') = W_Exit
           \<and> events (world s') = [Ev_Release None, Ev_Close]
           \<and> files (fsys (world s')) (filepath_Join b ob) = Some [])"
proof -
  have sz: "(0::int) = int (length (concat ([]::byte list list)))" by simp
  have wf: "concat ([]::byte list list) = [] \<or> write_fault fs (filepath_Join b ob) = None"
    by simp
  note tot = upload_total[OF assms(1,2) sz assms(4) wf assms(5)]
  have alone: "\<exists>s'. exec [Worker, Worker, Worker, Worker, Worker]
               (session [] (fst (Put b ob m 0 fs))) = Some s'
           \<and> caller s' = C_Run [] \<and> worker (world s') = W_Exit
           \<and> events (world s') = [Ev_Release None, Ev_Close]
           \<and> files (fsys (world s')) (filepath_Join b ob) = Some []"
    using assms(1,2,4) by (simp add: run_defs)
  from tot alone show ?thesis by simp
qed

theorem Put_size_zero_Close_witness:
  "\<exists>s. exec [Caller, Worker, Worker, Worker, Caller]
          (session [] (fst (Put ''b'' ''o.txt'' [] 0
             (quiet_fs Map.empty)))) = Some s
      \<and> caller s = C_Done None
      \<and> files (fsys (world s)) ''b/o.txt'' = Some []"
proof -
  let ?fs = "quiet_fs Map.empty"
  let ?ts = "[Caller, Worker, Worker, Worker, Caller]"
  obtain s where s: "exec ?ts (session [] (fst (Put ''b'' ''o.txt'' [] 0 ?fs))) = Some s"
    "\<exists>r. caller s = C_Done r"
    by (simp add: run_defs Join_b_o quiet_fs_def)
  have "files (fsys (world s)) (filepath_Join ''b'' ''o.txt'') = Some [] \<and> caller s = C_Done None"
    using Put_size_zero_Close[of "''b''" "''o.txt''" ?fs ?ts "[]" s] s
    by (auto simp: Join_b_o quiet_fs_def)
  with s show ?thesis by (auto simp: Join_b_o quiet_fs_def)
qed

section \<open>The handoff through the pipe\<close>

lemma reported_snoc:
  "drop (length rs) bs = b # rest \<Longrightarrow> reported bs (rs @ [r]) = reported bs rs @ take (fst r) b"
proof (induction rs arbitrary: bs)
  case Nil
  then show ?case by simp
next
  case (Cons r' rs)
  then show ?case by (cases bs) simp_all
qed

lemma complete_snoc:
  "drop (length rs) bs = b # rest \<Longrightarrow>
    complete bs (rs @ [r]) = (complete bs rs \<and> (snd r = None \<longrightarrow> fst r = length b))"
proof (induction rs arbitrary: bs)
  case Nil
  then show ?case by simp
next
  case (Cons r' rs)
  then show ?case by (cases bs) auto
qed

lemma complete_nth:
  "complete bs rs \<Longrightarrow> i < length rs \<Longrightarrow> i < length bs \<Longrightarrow> snd (rs ! i) = None
    \<Longrightarrow> fst (rs ! i) = length (bs ! i)"
proof (induction bs rs arbitrary: i rule: complete.induct)
  case (1 b bs r rs)
  then show ?case by (cases i) auto
qed simp_all

lemma drop_next: "drop k bs = b # rest \<Longrightarrow> drop (Suc k) bs = rest \<and> k < length bs"
proof -
  assume a: "drop k bs = b # rest"
  have "drop (Suc k) bs = tl (drop k bs)" by (simp add: drop_Suc tl_drop)
  with a have "drop (Suc k) bs = rest" by simp
  moreover from a have "k < length bs" by (cases "k < length bs") auto
  ultimately show ?thesis by simp
qed

lemma advance_all: "pre @ d = x \<Longrightarrow> drop k d = [] \<Longrightarrow> x = pre @ take k d"
  by auto

lemma advance_some:
  assumes "pre @ d = x" and "drop k d \<noteq> []"
  shows "take (length x - length (drop k d)) x = pre @ take k d"
proof -
  from assms(2) have k: "k < length d" by simp
  from assms(1) have "length x = length pre + length d" by auto
  with k have "length x - length (drop k d) = length pre + k" by simp
  with assms(1) show ?thesis by auto
qed

text \<open>A read of the worker moves the bytes it returns from the pipe to the bytes read.\<close>

lemma rendezvous_advance:
  assumes rv: "rendezvous bs acc s" and cw: "caller s = C_Write x xs"
    and d: "data (rw (world s)) = Some d"
    and d': "data (rw w) = (if drop k d = [] then None else Some (drop k d))"
  shows "rendezvous bs (acc @ take k d) (s\<lparr>world := w\<rparr>)"
proof -
  define pre where "pre = take (length x - length d) x"
  from rv cw d have pre: "pre @ d = x" and inf: "in_flight s = pre"
    by (simp_all add: rendezvous_def whole_slice_def in_flight_def in_flight_of_def pre_def)
  from rv inf have acc: "acc = reported bs (wlog s) @ pre" by (simp add: rendezvous_def)
  show ?thesis
  proof (cases "drop k d = []")
    case True
    with d' have dn: "data (rw w) = None" by simp
    from advance_all[OF pre True] have x: "x = pre @ take k d" .
    have "in_flight (s\<lparr>world := w\<rparr>) = x"
      using cw dn by (simp add: in_flight_def in_flight_of_def)
    with x have "in_flight (s\<lparr>world := w\<rparr>) = pre @ take k d" by simp
    moreover have "whole_slice (caller s) (data (rw w))"
      using cw dn by (simp add: whole_slice_def in_flight_of_def)
    ultimately show ?thesis using rv acc by (simp add: rendezvous_def)
  next
    case False
    with d' have ds: "data (rw w) = Some (drop k d)" by simp
    note adv = advance_some[OF pre False]
    have inf': "in_flight (s\<lparr>world := w\<rparr>) = pre @ take k d"
      using cw ds adv by (simp only: in_flight_def in_flight_of_def) simp
    have "(pre @ take k d) @ drop k d = pre @ (take k d @ drop k d)" by (simp only: append_assoc)
    with pre have "(pre @ take k d) @ drop k d = x" by (simp only: append_take_drop_id)
    with inf' cw ds have "whole_slice (caller s) (data (rw w))"
      by (simp add: whole_slice_def in_flight_def)
    with inf' show ?thesis using rv acc by (simp add: rendezvous_def)
  qed
qed

lemma rendezvous_init: "rendezvous bs [] (session bs w)"
  by (simp add: rendezvous_def session_def remaining_def in_flight_def in_flight_of_def
      whole_slice_def)

lemma rendezvous_cstep:
  assumes rv: "rendezvous bs acc s" and st: "cstep s = Some s'"
  shows "rendezvous bs acc s'"
  using st
proof (cases rule: cstepE)
  case Close
  with rv show ?thesis
    by (simp add: rendezvous_def remaining_def in_flight_def in_flight_of_def whole_slice_def)
next
  case (WriteFail x xs)
  with rv have d: "drop (length (wlog s)) bs = x # xs" by (simp add: rendezvous_def remaining_def)
  from drop_next[OF d] reported_snoc[OF d] complete_snoc[OF d] rv WriteFail show ?thesis
    by (simp add: rendezvous_def remaining_def in_flight_def in_flight_of_def whole_slice_def)
next
  case (WriteBegin x xs)
  with rv show ?thesis
    by (simp add: rendezvous_def remaining_def in_flight_def in_flight_of_def whole_slice_def)
next
  case (WriteEnd x xs)
  with rv have d: "drop (length (wlog s)) bs = x # xs" by (simp add: rendezvous_def remaining_def)
  from drop_next[OF d] reported_snoc[OF d] complete_snoc[OF d] rv WriteEnd show ?thesis
    by (simp add: rendezvous_def remaining_def in_flight_def in_flight_of_def whole_slice_def)
next
  case (WriteAbort x xs d e)
  with rv have dr: "drop (length (wlog s)) bs = x # xs"
    by (simp add: rendezvous_def remaining_def)
  from drop_next[OF dr] reported_snoc[OF dr] complete_snoc[OF dr] rv WriteAbort show ?thesis
    by (cases e)
       (simp_all add: rendezvous_def remaining_def in_flight_def in_flight_of_def whole_slice_def)
next
  case Wait
  with rv show ?thesis
    by (simp add: rendezvous_def remaining_def in_flight_def in_flight_of_def whole_slice_def)
qed

lemma rendezvous_same_data:
  "rendezvous bs acc s \<Longrightarrow> data (rw w) = data (rw (world s))
    \<Longrightarrow> rendezvous bs acc (s\<lparr>world := w\<rparr>)"
  by (simp add: rendezvous_def in_flight_def)

lemma rendezvous_wstep:
  assumes coh: "coherent s" and rv: "rendezvous bs acc s" and st: "wstep (world s) = Some w"
  shows "rendezvous bs (acc @ worker_reads (world s)) (s\<lparr>world := w\<rparr>)"
  using st
proof (cases rule: wstepE)
  case BadName
  with rv show ?thesis by (simp add: worker_reads_def rendezvous_same_data)
next
  case BadSize
  with rv show ?thesis by (simp add: worker_reads_def rendezvous_same_data)
next
  case (Exists e)
  with rv show ?thesis by (simp add: worker_reads_def rendezvous_same_data)
next
  case (CreateFail e)
  with rv show ?thesis by (simp add: worker_reads_def rendezvous_same_data)
next
  case Create
  with rv show ?thesis by (simp add: worker_reads_def rendezvous_same_data)
next
  case (CopyDone nm n)
  with rv show ?thesis by (simp add: worker_reads_def rendezvous_same_data)
next
  case (ReadClosed nm n)
  with rv show ?thesis
    by (auto simp: worker_reads_def pipe_read_def rendezvous_same_data)
next
  case (ReadEOF nm n e)
  with rv show ?thesis
    by (auto simp: worker_reads_def pipe_read_def rendezvous_same_data)
next
  case (ReadEmpty nm n)
  then have wr: "worker_reads (world s) = []" by (simp add: worker_reads_def pipe_read_def)
  from rv ReadEmpty show ?thesis
    unfolding wr
    by (auto simp: rendezvous_def in_flight_def in_flight_of_def whole_slice_def
        split: cpc.splits)
next
  case (WriteFault nm n d e)
  define k where "k = nat (min 32768 n)"
  from WriteFault have wr: "worker_reads (world s) = take k d"
    by (simp add: worker_reads_def pipe_read_def k_def)
  from WriteFault coh obtain x xs where cw: "caller s = C_Write x xs"
    by (auto simp: coherent_def in_write_def split: cpc.splits)
  from WriteFault have "data (rw w) = (if drop k d = [] then None else Some (drop k d))"
    by (simp add: k_def)
  from rendezvous_advance[OF rv cw WriteFault(4) this] show ?thesis by (simp only: wr)
next
  case (Copy nm n d)
  define k where "k = nat (min 32768 n)"
  from Copy have wr: "worker_reads (world s) = take k d"
    by (simp add: worker_reads_def pipe_read_def k_def)
  from Copy coh obtain x xs where cw: "caller s = C_Write x xs"
    by (auto simp: coherent_def in_write_def split: cpc.splits)
  from Copy have "data (rw w) = (if drop k d = [] then None else Some (drop k d))"
    by (simp add: k_def)
  from rendezvous_advance[OF rv cw Copy(4) this] show ?thesis by (simp only: wr)
next
  case (Fail e)
  with rv show ?thesis by (simp add: worker_reads_def rendezvous_same_data)
next
  case (Done e)
  with rv show ?thesis by (simp add: worker_reads_def rendezvous_same_data)
next
  case (Panic e)
  with rv show ?thesis by (simp add: worker_reads_def rendezvous_same_data)
next
  case (Store e)
  with rv show ?thesis by (simp add: worker_reads_def rendezvous_same_data)
next
  case CloseR
  with rv show ?thesis by (simp add: worker_reads_def rendezvous_same_data)
qed

lemma rendezvous_exec:
  "coherent s \<Longrightarrow> rendezvous bs acc s \<Longrightarrow> exec ts s = Some s'
    \<Longrightarrow> rendezvous bs (acc @ taken_by ts s) s'"
proof (induction ts arbitrary: s acc)
  case Nil
  then show ?case by simp
next
  case (Cons t ts)
  then obtain s1 where s1: "step t s = Some s1" "exec ts s1 = Some s'"
    by (auto split: option.splits)
  have "rendezvous bs (acc @ (case t of Worker \<Rightarrow> worker_reads (world s) | Caller \<Rightarrow> [])) s1"
  proof (cases t)
    case Caller
    with s1(1) have "cstep s = Some s1" by (simp add: step_def split: if_splits)
    from rendezvous_cstep[OF Cons.prems(2) this] Caller show ?thesis by simp
  next
    case Worker
    with s1(1) obtain w where w: "wstep (world s) = Some w" "s1 = s\<lparr>world := w\<rparr>"
      by (auto simp: step_def split: if_splits option.splits)
    from rendezvous_wstep[OF Cons.prems(1,2) w(1)] w(2) Worker show ?thesis by simp
  qed
  from Cons.IH[OF coherent_step[OF Cons.prems(1) s1(1)] this s1(2)] s1(1)
  show ?case by simp
qed

text \<open>
  C9. The pipe between the handle and the worker has no buffer. In every execution of a
  program that calls \<open>Put\<close> and then writes and closes, whatever the request, the file system
  and the schedule: the bytes that the worker has read from the consumer end so far are
  exactly, and in this order, the bytes of the calls of \<open>Write\<close> that have returned (of each
  slice as many bytes as its \<open>Write\<close> reported), followed by the part already read of the
  \<open>Write\<close> in progress; a \<open>Write\<close> that returned without error reported the whole length of
  its slice, so the worker had read all the bytes of that call when it returned; and the
  pipe holds data only while a \<open>Write\<close> is in progress, namely the rest of the slice of that
  \<open>Write\<close>. Nothing is said about the file: a \<open>Write\<close> may return without error although the
  worker could not write the bytes it read to the file.
\<close>

theorem Write_returns_after_handoff:
  assumes "exec ts (session bs (fst (Put b ob m sz fs))) = Some s"
  shows "taken_by ts (session bs (fst (Put b ob m sz fs))) = reported bs (wlog s) @ in_flight s
    \<and> length (wlog s) \<le> length bs
    \<and> (\<forall>i < length (wlog s). snd (wlog s ! i) = None \<longrightarrow> fst (wlog s ! i) = length (bs ! i))
    \<and> (in_write (caller s) \<or> data (rw (world s)) = None)
    \<and> (\<forall>x xs d. caller s = C_Write x xs \<and> data (rw (world s)) = Some d \<longrightarrow>
          in_flight s @ d = x)"
proof -
  from coherent_exec[OF coherent_init assms] have coh: "coherent s" .
  from rendezvous_exec[OF coherent_init rendezvous_init assms]
  have rv: "rendezvous bs (taken_by ts (session bs (fst (Put b ob m sz fs)))) s" by simp
  from rv have 1: "taken_by ts (session bs (fst (Put b ob m sz fs)))
      = reported bs (wlog s) @ in_flight s"
    and 2: "length (wlog s) \<le> length bs" and c: "complete bs (wlog s)"
    and ws: "whole_slice (caller s) (data (rw (world s)))"
    by (simp_all add: rendezvous_def)
  from c 2 have 3: "\<forall>i < length (wlog s). snd (wlog s ! i) = None
      \<longrightarrow> fst (wlog s ! i) = length (bs ! i)"
    by (auto intro: complete_nth)
  from coh have 4: "in_write (caller s) \<or> data (rw (world s)) = None"
    by (simp add: coherent_def)
  from ws have 5: "\<forall>x xs d. caller s = C_Write x xs \<and> data (rw (world s)) = Some d \<longrightarrow>
          in_flight s @ d = x"
    by (auto simp: whole_slice_def in_flight_def)
  from 1 2 3 4 5 show ?thesis by blast
qed

theorem Write_returns_after_handoff_witness:
  "(\<exists>s. exec [Worker, Caller, Worker, Worker, Worker, Worker, Caller, Caller, Caller]
          (session [''hello''] (fst (Put ''b'' ''o.txt'' [] 5 (full_fs ENOSPC)))) = Some s
        \<and> wlog s = [(5, None)]
        \<and> taken_by [Worker, Caller, Worker, Worker, Worker, Worker, Caller, Caller, Caller]
            (session [''hello''] (fst (Put ''b'' ''o.txt'' [] 5 (full_fs ENOSPC)))) = ''hello''
        \<and> files (fsys (world s)) ''b/o.txt'' = Some [])
   \<and> (\<exists>s. exec [Worker, Caller, Worker]
          (session [''hello''] (fst (Put ''b'' ''o.txt'' [] 3 (quiet_fs Map.empty)))) = Some s
        \<and> caller s = C_Write ''hello'' [] \<and> wlog s = []
        \<and> data (rw (world s)) = Some ''lo''
        \<and> taken_by [Worker, Caller, Worker]
            (session [''hello''] (fst (Put ''b'' ''o.txt'' [] 3 (quiet_fs Map.empty)))) = ''hel'')
   \<and> (\<exists>s. exec [Worker, Caller, Worker, Worker, Worker, Worker, Worker, Caller, Caller, Caller]
          (session [''hello''] (fst (Put ''b'' ''o.txt'' [] 3 (quiet_fs Map.empty)))) = Some s
        \<and> wlog s = [(3, Some (Iodine ErrClosedPipe))]
        \<and> taken_by [Worker, Caller, Worker, Worker, Worker, Worker, Worker, Caller, Caller, Caller]
            (session [''hello''] (fst (Put ''b'' ''o.txt'' [] 3 (quiet_fs Map.empty)))) = ''hel''
        \<and> files (fsys (world s)) ''b/o.txt'' = Some ''hel'')"
proof -
  have p1: "\<exists>s. exec [Worker, Caller, Worker, Worker, Worker, Worker, Caller, Caller, Caller]
          (session [''hello''] (fst (Put ''b'' ''o.txt'' [] 5 (full_fs ENOSPC)))) = Some s
        \<and> wlog s = [(5, None)]
        \<and> taken_by [Worker, Caller, Worker, Worker, Worker, Worker, Caller, Caller, Caller]
            (session [''hello''] (fst (Put ''b'' ''o.txt'' [] 5 (full_fs ENOSPC)))) = ''hello''
        \<and> files (fsys (world s)) ''b/o.txt'' = Some []"
  proof -
    obtain s where s: "exec [Worker, Caller, Worker, Worker, Worker, Worker, Caller, Caller, Caller]
        (session [''hello''] (fst (Put ''b'' ''o.txt'' [] 5 (full_fs ENOSPC)))) = Some s"
      "wlog s = [(5, None)]" "caller s = C_Done (Some (Iodine (PathError ENOSPC)))"
      "files (fsys (world s)) ''b/o.txt'' = Some []"
      by (simp add: run_defs Join_b_o full_fs_def)
    from Write_returns_after_handoff[OF s(1)] s(2,3)
    have "taken_by [Worker, Caller, Worker, Worker, Worker, Worker, Caller, Caller, Caller]
        (session [''hello''] (fst (Put ''b'' ''o.txt'' [] 5 (full_fs ENOSPC)))) = ''hello''"
      by (simp add: in_flight_def in_flight_of_def)
    with s show ?thesis by blast
  qed
  have p2: "\<exists>s. exec [Worker, Caller, Worker]
          (session [''hello''] (fst (Put ''b'' ''o.txt'' [] 3 (quiet_fs Map.empty)))) = Some s
        \<and> caller s = C_Write ''hello'' [] \<and> wlog s = []
        \<and> data (rw (world s)) = Some ''lo''
        \<and> taken_by [Worker, Caller, Worker]
            (session [''hello''] (fst (Put ''b'' ''o.txt'' [] 3 (quiet_fs Map.empty)))) = ''hel''"
  proof -
    obtain s where s: "exec [Worker, Caller, Worker]
        (session [''hello''] (fst (Put ''b'' ''o.txt'' [] 3 (quiet_fs Map.empty)))) = Some s"
      "wlog s = []" "caller s = C_Write ''hello'' []" "data (rw (world s)) = Some ''lo''"
      by (simp add: run_defs Join_b_o quiet_fs_def)
    from Write_returns_after_handoff[OF s(1)] s(2,3,4)
    have "taken_by [Worker, Caller, Worker]
        (session [''hello''] (fst (Put ''b'' ''o.txt'' [] 3 (quiet_fs Map.empty)))) = ''hel''"
      by (simp add: in_flight_def in_flight_of_def)
    with s show ?thesis by blast
  qed
  have p3: "\<exists>s. exec [Worker, Caller, Worker, Worker, Worker, Worker, Worker, Caller, Caller, Caller]
          (session [''hello''] (fst (Put ''b'' ''o.txt'' [] 3 (quiet_fs Map.empty)))) = Some s
        \<and> wlog s = [(3, Some (Iodine ErrClosedPipe))]
        \<and> taken_by [Worker, Caller, Worker, Worker, Worker, Worker, Worker, Caller, Caller, Caller]
            (session [''hello''] (fst (Put ''b'' ''o.txt'' [] 3 (quiet_fs Map.empty)))) = ''hel''
        \<and> files (fsys (world s)) ''b/o.txt'' = Some ''hel''"
  proof -
    obtain s where s: "exec [Worker, Caller, Worker, Worker, Worker, Worker, Worker, Caller, Caller, Caller]
        (session [''hello''] (fst (Put ''b'' ''o.txt'' [] 3 (quiet_fs Map.empty)))) = Some s"
      "wlog s = [(3, Some (Iodine ErrClosedPipe))]" "caller s = C_Done None"
      "files (fsys (world s)) ''b/o.txt'' = Some ''hel''"
      by (simp add: run_defs Join_b_o quiet_fs_def)
    from Write_returns_after_handoff[OF s(1)] s(2,3)
    have "taken_by [Worker, Caller, Worker, Worker, Worker, Worker, Worker, Caller, Caller, Caller]
        (session [''hello''] (fst (Put ''b'' ''o.txt'' [] 3 (quiet_fs Map.empty)))) = ''hel''"
      by (simp add: in_flight_def in_flight_of_def)
    with s show ?thesis by blast
  qed
  from p1 p2 p3 show ?thesis by blast
qed

section \<open>Rejected requests\<close>

text \<open>
  Under every schedule a request with an empty name or a negative size leaves the file
  system as it was; \<open>Close\<close> returns the wrapped \<open>InvalidArgument\<close> or nil, nothing else;
  and when the worker has returned it has closed the consumer end with the wrapped
  \<open>InvalidArgument\<close> and passed it to \<open>Release\<close>, and the error is in the slot.
\<close>

lemma rejected_request:
  assumes "b = [] \<or> ob = [] \<or> sz < 0"
    and "exec ts (session bs (fst (Put b ob m sz fs))) = Some s"
  shows "fsys (world s) = fs"
    and "caller s = C_Done r \<Longrightarrow> r = None \<or> r = Some (Iodine InvalidArgument)"
    and "worker (world s) = W_Exit \<Longrightarrow>
           events (world s) = [Ev_CloseWithError (Iodine InvalidArgument),
                               Ev_Release (Some (Iodine InvalidArgument))]
           \<and> err (blockingWriter (world s)) = Some (Iodine InvalidArgument)"
proof -
  define content where "content = concat bs"
  from assms(1) have ee: "expected_error b ob sz fs content = Some (Iodine InvalidArgument)"
    by (auto simp: expected_error_def)
  from assms(1) have nc: "\<not> created b ob sz fs" by (auto simp: created_def)
  from coherent_exec[OF coherent_init assms(2)] have coh: "coherent s" .
  from tracking_exec[OF coherent_init tracking_init assms(2)]
  have tr: "tracking b ob sz fs content s" by (simp only: content_def)
  from files_untouched[OF tr nc] show "fsys (world s) = fs" .
  show "caller s = C_Done r \<Longrightarrow> r = None \<or> r = Some (Iodine InvalidArgument)"
    using close_outcome(1)[OF tr] ee by auto
  show "events (world s) = [Ev_CloseWithError (Iodine InvalidArgument),
                            Ev_Release (Some (Iodine InvalidArgument))]
        \<and> err (blockingWriter (world s)) = Some (Iodine InvalidArgument)"
    if "worker (world s) = W_Exit"
    using worker_outcome[OF coh tr that] ee by (simp add: failed_with_def)
qed

lemma refusing_cstep:
  assumes coh: "coherent s" and rf: "refusing e s" and w: "iodine_wrap e = e"
    and st: "cstep s = Some s'"
  shows "refusing e s'"
  using st
proof (cases rule: cstepE)
  case Close
  with rf show ?thesis by (simp add: refusing_def whole_pending_def)
next
  case (WriteFail x xs)
  with coh show ?thesis by (simp add: coherent_def writer_closed_def)
next
  case (WriteBegin x xs)
  with rf show ?thesis by (simp add: refusing_def whole_pending_def)
next
  case (WriteEnd x xs)
  with rf show ?thesis by (simp add: refusing_def whole_pending_def)
next
  case (WriteAbort x xs d e')
  with rf have "d = x" and "e' = e" by (auto simp: refusing_def whole_pending_def)
  with rf WriteAbort w show ?thesis by (simp add: refusing_def whole_pending_def)
next
  case Wait
  with rf show ?thesis by (simp add: refusing_def whole_pending_def)
qed

lemma refusing_wstep:
  assumes tr: "tracking b ob sz fs content s" and nc: "\<not> created b ob sz fs"
    and ee: "expected_error b ob sz fs content = Some e"
    and rf: "refusing e s" and st: "wstep (world s) = Some w"
  shows "refusing e (s\<lparr>world := w\<rparr>)"
proof -
  have same: "refusing e (s\<lparr>world := w\<rparr>)" if "rw w = rw (world s)"
    using rf that by (simp add: refusing_def)
  have nocopy: "False" if "worker (world s) = W_CopyN nm n" for nm n
    using tr nc that by (simp add: tracking_def track_pc_def copying_def)
  from tr nc have names: "bucket (world s) = b" "object (world s) = ob" "size64 (world s) = sz"
    "create_fault (fsys (world s)) = create_fault fs"
    by (simp_all add: tracking_def)
  from st show ?thesis
  proof (cases rule: wstepE)
    case BadName
    then have "rw w = rw (world s)" by simp
    then show ?thesis by (rule same)
  next
    case BadSize
    then have "rw w = rw (world s)" by simp
    then show ?thesis by (rule same)
  next
    case (Exists x)
    then have "rw w = rw (world s)" by simp
    then show ?thesis by (rule same)
  next
    case (CreateFail x)
    then have "rw w = rw (world s)" by simp
    then show ?thesis by (rule same)
  next
    case Create
    with names nc show ?thesis by (simp add: created_def)
  next
    case (CopyDone nm n)
    from nocopy[OF this(1)] show ?thesis ..
  next
    case (ReadClosed nm n)
    from nocopy[OF this(1)] show ?thesis ..
  next
    case (ReadEOF nm n x)
    from nocopy[OF this(1)] show ?thesis ..
  next
    case (ReadEmpty nm n)
    from nocopy[OF this(1)] show ?thesis ..
  next
    case (WriteFault nm n d x)
    from nocopy[OF this(1)] show ?thesis ..
  next
    case (Copy nm n d)
    from nocopy[OF this(1)] show ?thesis ..
  next
    case (Fail x)
    with tr ee have "x = e" by (simp add: tracking_def track_pc_def)
    with rf Fail show ?thesis by (simp add: refusing_def whole_pending_def)
  next
    case (Done x)
    then have "rw w = rw (world s)" by simp
    then show ?thesis by (rule same)
  next
    case (Panic x)
    then have "rw w = rw (world s)" by simp
    then show ?thesis by (rule same)
  next
    case (Store x)
    then have "rw w = rw (world s)" by simp
    then show ?thesis by (rule same)
  next
    case CloseR
    with tr ee show ?thesis by (simp add: tracking_def track_pc_def)
  qed
qed

lemma refusing_exec:
  assumes nc: "\<not> created b ob sz fs" and ee: "expected_error b ob sz fs content = Some e"
    and w: "iodine_wrap e = e"
  shows "coherent s \<Longrightarrow> tracking b ob sz fs content s \<Longrightarrow> refusing e s
    \<Longrightarrow> exec ts s = Some s' \<Longrightarrow> refusing e s'"
proof (induction ts arbitrary: s)
  case Nil
  then show ?case by simp
next
  case (Cons t ts)
  then obtain s1 where s1: "step t s = Some s1" "exec ts s1 = Some s'"
    by (auto split: option.splits)
  have "refusing e s1"
  proof (cases t)
    case Caller
    with s1(1) have "cstep s = Some s1" by (simp add: step_def split: if_splits)
    from refusing_cstep[OF Cons.prems(1,3) w this] show ?thesis .
  next
    case Worker
    with s1(1) obtain w where w: "wstep (world s) = Some w" "s1 = s\<lparr>world := w\<rparr>"
      by (auto simp: step_def split: if_splits option.splits)
    from refusing_wstep[OF Cons.prems(2) nc ee Cons.prems(3) w(1)] w(2) show ?thesis by simp
  qed
  from Cons.IH[OF coherent_step[OF Cons.prems(1) s1(1)]
      tracking_step[OF Cons.prems(1,2) s1(1)] this s1(2)]
  show ?case .
qed

text \<open>
  Under every schedule, every \<open>Write\<close> on the handle of a request with an empty name or a
  negative size returns no byte written and the wrapped \<open>InvalidArgument\<close>.
\<close>

lemma rejected_write:
  assumes "b = [] \<or> ob = [] \<or> sz < 0"
    and "exec ts (session bs (fst (Put b ob m sz fs))) = Some s"
  shows "\<forall>r \<in> set (wlog s). r = (0, Some (Iodine InvalidArgument))"
proof -
  define content where "content = concat bs"
  from assms(1) have ee: "expected_error b ob sz fs content = Some (Iodine InvalidArgument)"
    by (auto simp: expected_error_def)
  from assms(1) have nc: "\<not> created b ob sz fs" by (auto simp: created_def)
  have tr: "tracking b ob sz fs content (session bs (fst (Put b ob m sz fs)))"
    using tracking_init by (simp only: content_def)
  have rf: "refusing (Iodine InvalidArgument) (session bs (fst (Put b ob m sz fs)))"
    by (simp add: refusing_def whole_pending_def session_def Put_def io_Pipe_def)
  from refusing_exec[OF nc ee _ coherent_init tr rf assms(2)] show ?thesis
    by (simp add: refusing_def whole_pending_def)
qed

section \<open>Where the code departs from the claims\<close>

text \<open>
  C5. \<open>Put("", "o.txt", "", 5)\<close> and \<open>Put("b", "o.txt", "", -1)\<close>, no write, then
  \<open>Close\<close>. The worker rejects both requests without touching the file system and passes
  the wrapped \<open>InvalidArgument\<close> to \<open>Release\<close>. When \<open>Close\<close> reads the error slot after
  the store of \<open>Release\<close> it returns that error (first execution). But \<open>Release\<close> calls
  \<open>Done()\<close> before it stores the error: when the caller runs between the two, \<open>Close\<close>
  returns nil although the request was invalid (second and third execution); the error
  is in the slot only afterwards.
\<close>

theorem Close_misses_InvalidArgument:
  "exec [Worker, Worker, Worker, Worker, Caller, Caller]
     (session [] (fst (Put [] ''o.txt'' [] 5 (quiet_fs Map.empty))))
   = Some \<lparr>caller = C_Done (Some (Iodine InvalidArgument)), wlog = [],
       world = \<lparr>bucket = [], object = ''o.txt'', size64 = 5,
         rw = \<lparr>data = None, rerr = Some (Iodine InvalidArgument), werr = Some EOF\<rparr>,
         blockingWriter = \<lparr>release = 0, err = Some (Iodine InvalidArgument)\<rparr>,
         fsys = quiet_fs Map.empty, worker = W_Exit,
         events = [Ev_CloseWithError (Iodine InvalidArgument),
                   Ev_Release (Some (Iodine InvalidArgument))]\<rparr>\<rparr>
   \<and> exec [Worker, Worker, Worker, Caller, Caller, Worker]
     (session [] (fst (Put [] ''o.txt'' [] 5 (quiet_fs Map.empty))))
   = Some \<lparr>caller = C_Done None, wlog = [],
       world = \<lparr>bucket = [], object = ''o.txt'', size64 = 5,
         rw = \<lparr>data = None, rerr = Some (Iodine InvalidArgument), werr = Some EOF\<rparr>,
         blockingWriter = \<lparr>release = 0, err = Some (Iodine InvalidArgument)\<rparr>,
         fsys = quiet_fs Map.empty, worker = W_Exit,
         events = [Ev_CloseWithError (Iodine InvalidArgument),
                   Ev_Release (Some (Iodine InvalidArgument))]\<rparr>\<rparr>
   \<and> exec [Caller, Worker, Worker, Worker, Caller, Worker]
     (session [] (fst (Put ''b'' ''o.txt'' [] (- 1) (quiet_fs Map.empty))))
   = Some \<lparr>caller = C_Done None, wlog = [],
       world = \<lparr>bucket = ''b'', object = ''o.txt'', size64 = - 1,
         rw = \<lparr>data = None, rerr = Some (Iodine InvalidArgument), werr = Some EOF\<rparr>,
         blockingWriter = \<lparr>release = 0, err = Some (Iodine InvalidArgument)\<rparr>,
         fsys = quiet_fs Map.empty, worker = W_Exit,
         events = [Ev_CloseWithError (Iodine InvalidArgument),
                   Ev_Release (Some (Iodine InvalidArgument))]\<rparr>\<rparr>"
  by (simp add: run_defs)

text \<open>
  C6. The file \<open>b/o.txt\<close> exists and holds \<open>old\<close>; \<open>Put("b", "o.txt", "", 3)\<close>, the caller
  writes \<open>new\<close> and closes. \<open>os.Create\<close> does not fail on a file that exists: the worker's
  first step has already emptied the file, no \<open>ObjectExists\<close> error is ever made, \<open>Close\<close>
  returns nil and the file holds \<open>new\<close>.
\<close>

theorem Put_overwrites_existing_object:
  "map_option fsys (wstep (fst (Put ''b'' ''o.txt'' [] 3 (quiet_fs [''b/o.txt'' \<mapsto> ''old'']))))
   = Some (quiet_fs [''b/o.txt'' \<mapsto> []])
   \<and> exec [Worker, Caller, Worker, Caller, Caller, Worker, Worker, Worker, Worker, Caller]
     (session [''new''] (fst (Put ''b'' ''o.txt'' [] 3 (quiet_fs [''b/o.txt'' \<mapsto> ''old'']))))
   = Some \<lparr>caller = C_Done None, wlog = [(3, None)],
       world = \<lparr>bucket = ''b'', object = ''o.txt'', size64 = 3,
         rw = \<lparr>data = None, rerr = Some ErrClosedPipe, werr = Some EOF\<rparr>,
         blockingWriter = \<lparr>release = 0, err = None\<rparr>,
         fsys = quiet_fs [''b/o.txt'' \<mapsto> ''new''], worker = W_Exit,
         events = [Ev_Release None, Ev_Close]\<rparr>\<rparr>"
  by (simp add: run_defs Join_b_o quiet_fs_def)

text \<open>
  C7. \<open>Put("b", "o.txt", "", 5)\<close>, the caller writes the three bytes \<open>hel\<close> and closes.
  The copy fails with \<open>EOF\<close> after three bytes and the worker passes the wrapped \<open>EOF\<close> to
  \<open>Release\<close>. When \<open>Close\<close> reads the error slot after the store of \<open>Release\<close> it returns
  that error (first execution); when it reads the slot between \<open>Done()\<close> and the store it
  returns nil for the short transfer (second execution). The file keeps the three bytes.
\<close>

theorem Close_misses_short_transfer:
  "exec [Worker, Caller, Worker, Caller, Caller, Worker, Worker, Worker, Worker, Caller]
     (session [''hel''] (fst (Put ''b'' ''o.txt'' [] 5 (quiet_fs Map.empty))))
   = Some \<lparr>caller = C_Done (Some (Iodine EOF)), wlog = [(3, None)],
       world = \<lparr>bucket = ''b'', object = ''o.txt'', size64 = 5,
         rw = \<lparr>data = None, rerr = Some (Iodine EOF), werr = Some EOF\<rparr>,
         blockingWriter = \<lparr>release = 0, err = Some (Iodine EOF)\<rparr>,
         fsys = quiet_fs [''b/o.txt'' \<mapsto> ''hel''], worker = W_Exit,
         events = [Ev_CloseWithError (Iodine EOF), Ev_Release (Some (Iodine EOF))]\<rparr>\<rparr>
   \<and> exec [Worker, Caller, Worker, Caller, Caller, Worker, Worker, Worker, Caller, Worker]
     (session [''hel''] (fst (Put ''b'' ''o.txt'' [] 5 (quiet_fs Map.empty))))
   = Some \<lparr>caller = C_Done None, wlog = [(3, None)],
       world = \<lparr>bucket = ''b'', object = ''o.txt'', size64 = 5,
         rw = \<lparr>data = None, rerr = Some (Iodine EOF), werr = Some EOF\<rparr>,
         blockingWriter = \<lparr>release = 0, err = Some (Iodine EOF)\<rparr>,
         fsys = quiet_fs [''b/o.txt'' \<mapsto> ''hel''], worker = W_Exit,
         events = [Ev_CloseWithError (Iodine EOF), Ev_Release (Some (Iodine EOF))]\<rparr>\<rparr>"
  by (simp add: run_defs Join_b_o quiet_fs_def)

text \<open>
  C8. \<open>Put("b", "", "", 5)\<close>, an empty object name. \<open>Put\<close> returns the handle and a nil
  error; the worker rejects the request and passes the wrapped \<open>InvalidArgument\<close> to the
  consumer end and to \<open>Release\<close>. A \<open>Write\<close> on the handle returns that error, and so does a
  \<open>Close\<close> that reads the error slot after the store of \<open>Release\<close> (first execution). But
  when the caller writes nothing and its \<open>Close\<close> reads the slot between the \<open>Done()\<close> and
  the store of \<open>Release\<close>, \<open>Close\<close> returns nil (second execution): \<open>Put\<close> returned nil,
  there was no \<open>Write\<close>, \<open>Close\<close> returned nil, and neither goroutine has a step left. The
  error of the validation, which is in the slot by then, has been reported to nobody.
\<close>

theorem Put_defers_error_to_nobody:
  "snd (Put ''b'' [] [] 5 (quiet_fs Map.empty)) = None
   \<and> exec [Worker, Worker, Worker, Worker, Caller, Caller, Caller, Caller]
     (session [''hello''] (fst (Put ''b'' [] [] 5 (quiet_fs Map.empty))))
   = Some \<lparr>caller = C_Done (Some (Iodine InvalidArgument)),
       wlog = [(0, Some (Iodine InvalidArgument))],
       world = \<lparr>bucket = ''b'', object = [], size64 = 5,
         rw = \<lparr>data = None, rerr = Some (Iodine InvalidArgument), werr = Some EOF\<rparr>,
         blockingWriter = \<lparr>release = 0, err = Some (Iodine InvalidArgument)\<rparr>,
         fsys = quiet_fs Map.empty, worker = W_Exit,
         events = [Ev_CloseWithError (Iodine InvalidArgument),
                   Ev_Release (Some (Iodine InvalidArgument))]\<rparr>\<rparr>
   \<and> exec [Worker, Caller, Worker, Worker, Caller, Worker]
     (session [] (fst (Put ''b'' [] [] 5 (quiet_fs Map.empty))))
   = Some \<lparr>caller = C_Done None, wlog = [],
       world = \<lparr>bucket = ''b'', object = [], size64 = 5,
         rw = \<lparr>data = None, rerr = Some (Iodine InvalidArgument), werr = Some EOF\<rparr>,
         blockingWriter = \<lparr>release = 0, err = Some (Iodine InvalidArgument)\<rparr>,
         fsys = quiet_fs Map.empty, worker = W_Exit,
         events = [Ev_CloseWithError (Iodine InvalidArgument),
                   Ev_Release (Some (Iodine InvalidArgument))]\<rparr>\<rparr>
   \<and> step Caller \<lparr>caller = C_Done None, wlog = [],
       world = \<lparr>bucket = ''b'', object = [], size64 = 5,
         rw = \<lparr>data = None, rerr = Some (Iodine InvalidArgument), werr = Some EOF\<rparr>,
         blockingWriter = \<lparr>release = 0, err = Some (Iodine InvalidArgument)\<rparr>,
         fsys = quiet_fs Map.empty, worker = W_Exit,
         events = [Ev_CloseWithError (Iodine InvalidArgument),
                   Ev_Release (Some (Iodine InvalidArgument))]\<rparr>\<rparr> = None
   \<and> step Worker \<lparr>caller = C_Done None, wlog = [],
       world = \<lparr>bucket = ''b'', object = [], size64 = 5,
         rw = \<lparr>data = None, rerr = Some (Iodine InvalidArgument), werr = Some EOF\<rparr>,
         blockingWriter = \<lparr>release = 0, err = Some (Iodine InvalidArgument)\<rparr>,
         fsys = quiet_fs Map.empty, worker = W_Exit,
         events = [Ev_CloseWithError (Iodine InvalidArgument),
                   Ev_Release (Some (Iodine InvalidArgument))]\<rparr>\<rparr> = None"
  by (simp add: run_defs)

end
